theory Spec2Isabelle
  imports Main "HOL-Library.Word" "HOL-Library.AList"
begin

unbundle bit_operations_syntax

section \<open>Conventions\<close>

text \<open>
  The theory embeds the storage engine of package \<open>engine\<close>: the record codec
  (\<open>record.go\<close>), the entry codec (\<open>entry.go\<close>), the data file, the index file, the meta
  file and the engine itself (\<open>mkv.go\<close>).

  Bytes are \<open>8 word\<close>. The 16- and 32-bit header fields and every value the source
  computes in \<open>uint16\<close> or \<open>uint32\<close> are words of that width, so their additions wrap as
  in Go. Lengths, file offsets, record sizes and file ids are \<open>int\<close>, \<open>int64\<close> or
  \<open>uint64\<close> in the source; they count bytes or files that exist in memory or on one
  disk and stay far below \<open>2 ^ 63\<close>, so they are natural numbers here and the
  conversions between them are identities.

  A Go slice expression \<open>b[lo:hi]\<close> panics unless \<open>lo \<le> hi \<le> cap b\<close>. Every panic of
  the source is the error value \<open>Panic\<close>; an error return is \<open>Inl\<close> of the error.
\<close>

type_synonym byte = "8 word"

datatype error =
    ErrKeyNotFound
  | ErrDirLocked
  | ErrReadOnly
  | EOF
  | ErrUnexpectedEOF
  | ErrNotExist
  | ErrMmap
  | ErrBadMeta
  | Panic

section \<open>Big-endian integers and CRC-32\<close>

definition PutUint16 :: "16 word \<Rightarrow> byte list" where
  "PutUint16 v = [ucast (drop_bit 8 v), ucast v]"

definition Uint16 :: "byte list \<Rightarrow> 16 word" where
  "Uint16 b = push_bit 8 (ucast (b ! 0)) OR ucast (b ! 1)"

definition PutUint32 :: "32 word \<Rightarrow> byte list" where
  "PutUint32 v = [ucast (drop_bit 24 v), ucast (drop_bit 16 v), ucast (drop_bit 8 v), ucast v]"

definition Uint32 :: "byte list \<Rightarrow> 32 word" where
  "Uint32 b = push_bit 24 (ucast (b ! 0)) OR push_bit 16 (ucast (b ! 1))
              OR push_bit 8 (ucast (b ! 2)) OR ucast (b ! 3)"

definition PutUint64 :: "64 word \<Rightarrow> byte list" where
  "PutUint64 v = [ucast (drop_bit 56 v), ucast (drop_bit 48 v), ucast (drop_bit 40 v),
                  ucast (drop_bit 32 v), ucast (drop_bit 24 v), ucast (drop_bit 16 v),
                  ucast (drop_bit 8 v), ucast v]"

definition Uint64 :: "byte list \<Rightarrow> 64 word" where
  "Uint64 b = push_bit 56 (ucast (b ! 0)) OR push_bit 48 (ucast (b ! 1))
              OR push_bit 40 (ucast (b ! 2)) OR push_bit 32 (ucast (b ! 3))
              OR push_bit 24 (ucast (b ! 4)) OR push_bit 16 (ucast (b ! 5))
              OR push_bit 8 (ucast (b ! 6)) OR ucast (b ! 7)"

text \<open>
  \<open>crc32.ChecksumIEEE\<close> of the Go standard library: the reflected CRC-32 with
  polynomial \<open>0xEDB88320\<close>, initial value and final complement \<open>0xFFFFFFFF\<close>.
\<close>

definition crc_shift :: "32 word \<Rightarrow> 32 word" where
  "crc_shift c = (if bit c 0 then drop_bit 1 c XOR 0xEDB88320 else drop_bit 1 c)"

definition crc_update :: "32 word \<Rightarrow> byte \<Rightarrow> 32 word" where
  "crc_update c b = (crc_shift ^^ 8) (c XOR ucast b)"

definition ChecksumIEEE :: "byte list \<Rightarrow> 32 word" where
  "ChecksumIEEE bs = NOT (foldl crc_update 0xFFFFFFFF bs)"

section \<open>Record codec\<close>

definition bitDeleted :: nat where "bitDeleted = 0"
definition NormalFlag :: byte where "NormalFlag = 0"
definition flagPos :: nat where "flagPos = 0"
definition keySizeBegin :: nat where "keySizeBegin = 1"
definition valueSizeBegin :: nat where "valueSizeBegin = 1 + 2"
definition keyBegin :: nat where "keyBegin = 1 + 2 + 4"
definition checksumSize :: nat where "checksumSize = 4"

record Record =
  flag :: byte
  ksize :: "16 word"
  vsize :: "32 word"
  key :: "byte list"
  val :: "byte list"
  checksum :: "32 word"

definition NewRecordWithoutChecksum :: "byte \<Rightarrow> byte list \<Rightarrow> byte list \<Rightarrow> Record" where
  "NewRecordWithoutChecksum f k v =
     \<lparr>flag = f, ksize = of_nat (length k), vsize = of_nat (length v),
      key = k, val = v, checksum = 0\<rparr>"

definition generateChecksum :: "byte \<Rightarrow> byte list \<Rightarrow> byte list \<Rightarrow> 32 word" where
  "generateChecksum f k v =
     ChecksumIEEE (f # PutUint16 (of_nat (length k)) @ PutUint32 (of_nat (length v)) @ k @ v)"

definition Size :: "Record \<Rightarrow> nat" where
  "Size r = keyBegin + length (key r) + length (val r) + checksumSize"

definition Corrupted :: "Record \<Rightarrow> bool" where
  "Corrupted r = (checksum r \<noteq> generateChecksum (flag r) (key r) (val r))"

definition IsDeleted :: "Record \<Rightarrow> bool" where
  "IsDeleted r = (drop_bit bitDeleted (flag r) AND 1 = 1)"

definition SetDeleted :: "Record \<Rightarrow> Record" where
  "SetDeleted r = r\<lparr>flag := flag r OR push_bit bitDeleted 1\<rparr>"

text \<open>
  \<open>b[lo:hi]\<close> on a slice whose capacity is its length, and \<open>copy(b[lo:hi], src)\<close>, which
  overwrites the first \<open>min (hi - lo) (len src)\<close> bytes of that window.
\<close>

definition slice :: "byte list \<Rightarrow> nat \<Rightarrow> nat \<Rightarrow> error + byte list" where
  "slice b lo hi = (if lo \<le> hi \<and> hi \<le> length b then Inr (take (hi - lo) (drop lo b)) else Inl Panic)"

definition copy_into :: "byte list \<Rightarrow> nat \<Rightarrow> nat \<Rightarrow> byte list \<Rightarrow> error + byte list" where
  "copy_into b lo hi src =
     (if lo \<le> hi \<and> hi \<le> length b
      then let n = min (hi - lo) (length src) in Inr (take lo b @ take n src @ drop (lo + n) b)
      else Inl Panic)"

text \<open>Sequencing of fallible steps: the first error or panic ends the computation.\<close>

definition bnd :: "error + 'a \<Rightarrow> ('a \<Rightarrow> error + 'b) \<Rightarrow> error + 'b" where
  "bnd m f = (case m of Inl e \<Rightarrow> Inl e | Inr x \<Rightarrow> f x)"

text \<open>
  \<open>DecodeRecord\<close>. \<open>valueStart\<close> is \<open>keyBegin + ksize\<close> computed in \<open>uint16\<close>, and
  \<open>checksumStart\<close> and \<open>checksumStart + checksumSize\<close> are computed in \<open>uint32\<close>.
\<close>

definition DecodeRecord :: "byte list \<Rightarrow> error + Record" where
  "DecodeRecord bytes =
     (if length bytes < keyBegin then Inl Panic
      else
        let f = bytes ! flagPos;
            ks = Uint16 (take (valueSizeBegin - keySizeBegin) (drop keySizeBegin bytes));
            vs = Uint32 (take (keyBegin - valueSizeBegin) (drop valueSizeBegin bytes));
            valueStart = (of_nat keyBegin :: 16 word) + ks;
            checksumStart = (ucast valueStart :: 32 word) + vs
        in bnd (slice bytes keyBegin (unat valueStart)) (\<lambda>k.
           bnd (slice bytes (unat valueStart) (unat checksumStart)) (\<lambda>v.
           bnd (slice bytes (unat checksumStart) (unat (checksumStart + of_nat checksumSize))) (\<lambda>c.
           Inr \<lparr>flag = f, ksize = ks, vsize = vs, key = k, val = v, checksum = Uint32 c\<rparr>))))"

definition EncodeRecordWithChecksum :: "Record \<Rightarrow> error + byte list" where
  "EncodeRecordWithChecksum r =
     (let b0 = replicate (Size r) (0 :: byte);
          b1 = b0[flagPos := flag r];
          b2 = take keySizeBegin b1 @ PutUint16 (ksize r) @ drop valueSizeBegin b1;
          b3 = take valueSizeBegin b2 @ PutUint32 (vsize r) @ drop keyBegin b2;
          valueStart = (of_nat keyBegin :: 16 word) + ksize r;
          checksumStart = (ucast valueStart :: 32 word) + vsize r
      in bnd (copy_into b3 keyBegin (unat valueStart) (key r)) (\<lambda>b4.
         bnd (copy_into b4 (unat valueStart) (unat checksumStart) (val r)) (\<lambda>b5.
         bnd (slice b5 0 (unat checksumStart)) (\<lambda>body.
         copy_into b5 (unat checksumStart) (unat (checksumStart + of_nat checksumSize))
           (PutUint32 (ChecksumIEEE body))))))"


text \<open>
  The byte layout the encoder is meant to produce: header, the first \<open>ksize\<close> bytes of
  the key, the first \<open>vsize\<close> bytes of the value, the checksum of all that, and zero
  padding up to \<open>Size\<close> (empty when both lengths fit their fields).
\<close>

definition header :: "byte \<Rightarrow> 16 word \<Rightarrow> 32 word \<Rightarrow> byte list" where
  "header f ks vs = f # PutUint16 ks @ PutUint32 vs"

definition layout :: "Record \<Rightarrow> byte list" where
  "layout r =
     (let body = header (flag r) (ksize r) (vsize r) @ take (unat (ksize r)) (key r)
                 @ take (unat (vsize r)) (val r)
      in body @ PutUint32 (ChecksumIEEE body)
         @ replicate (length (key r) - unat (ksize r) + (length (val r) - unat (vsize r))) 0)"

section \<open>Entry codec\<close>

text \<open>Field \<open>ESize\<close> is the source's \<open>Entry.Size\<close>.\<close>

record Entry =
  ID :: nat
  Offset :: nat
  ESize :: nat

definition idBegin :: nat where "idBegin = 0"
definition offsetBegin :: nat where "offsetBegin = 8"
definition sizeBegin :: nat where "sizeBegin = 8 + 8"
definition sizeEnd :: nat where "sizeEnd = 8 + 8 + 8"

text \<open>\<open>DecodeEntry\<close> is only called on a payload of \<open>sizeEnd\<close> bytes.\<close>

definition DecodeEntry :: "byte list \<Rightarrow> Entry" where
  "DecodeEntry bytes =
     \<lparr>ID = unat (Uint64 (take (offsetBegin - idBegin) (drop idBegin bytes))),
      Offset = unat (Uint64 (take (sizeBegin - offsetBegin) (drop offsetBegin bytes))),
      ESize = unat (Uint64 (take (sizeEnd - sizeBegin) (drop sizeBegin bytes)))\<rparr>"

definition EncodeEntry :: "Entry \<Rightarrow> byte list" where
  "EncodeEntry e =
     PutUint64 (of_nat (ID e)) @ PutUint64 (of_nat (Offset e)) @ PutUint64 (of_nat (ESize e))"

section \<open>The directory and its files\<close>

text \<open>
  The root directory: the lock, \<open>meta.json\<close> (absent, unparsable, or holding a \<open>Meta\<close>),
  the \<open>index\<close> file, and the \<open>.data\<close> and \<open>.hint\<close> files by id. A file is its byte
  sequence. Reads and writes fail only for what the file contents decide (a short read, a
  missing file); failures of the device are outside the model.

  The counter \<open>ReusableSpace\<close> is an \<open>int64\<close>: a 64-bit word here, read as a signed
  number with \<open>sint\<close>, so that \<open>+=\<close> wraps as in Go.
\<close>

record Meta =
  IndexUpToDate :: bool
  ReusableSpace :: "64 word"

datatype meta_json = Absent | Malformed | Holds Meta

record Disk =
  locked :: bool
  meta_file :: meta_json
  index_file :: "byte list option"
  data_files :: "(nat \<times> byte list) list"
  hint_files :: "(nat \<times> byte list) list"

text \<open>
  \<open>os.File.ReadAt\<close> returns \<open>io.EOF\<close> whenever it reads fewer bytes than asked, and
  reads nothing for an empty buffer. \<open>mmap.ReaderAt.ReadAt\<close> fails on an empty mapping
  and on an offset past the end. \<open>WriteAt\<close> pads a gap with zeros and writes nothing for
  an empty buffer. \<open>io.ReadFull\<close> on a stream returns \<open>io.EOF\<close> only when no byte is left.
\<close>

definition file_ReadAt :: "byte list \<Rightarrow> nat \<Rightarrow> nat \<Rightarrow> error + byte list" where
  "file_ReadAt c n off =
     (if n = 0 \<or> off + n \<le> length c then Inr (take n (drop off c)) else Inl EOF)"

definition mmap_ReadAt :: "byte list \<Rightarrow> nat \<Rightarrow> nat \<Rightarrow> error + byte list" where
  "mmap_ReadAt dat n off =
     (if dat = [] \<or> length dat < off then Inl ErrMmap
      else if length dat - off < n then Inl EOF
      else Inr (take n (drop off dat)))"

definition file_WriteAt :: "byte list \<Rightarrow> byte list \<Rightarrow> nat \<Rightarrow> byte list" where
  "file_WriteAt c bs off =
     (if bs = [] then c
      else take off c @ replicate (off - length c) 0 @ bs @ drop (off + length bs) c)"

definition ReadFull :: "byte list \<Rightarrow> nat \<Rightarrow> error + (byte list \<times> byte list)" where
  "ReadFull stream n =
     (if n = 0 then Inr ([], stream)
      else if stream = [] then Inl EOF
      else if length stream < n then Inl ErrUnexpectedEOF
      else Inr (take n stream, drop n stream))"

section \<open>Data file\<close>

text \<open>
  \<open>df_reader\<close> is the mmap reader of a read-only file: the bytes mapped when it was
  opened. \<open>df_end\<close> is the field \<open>end\<close>; \<open>ID()\<close> and \<open>Size()\<close> return \<open>df_id\<close> and
  \<open>df_end\<close>. The \<open>os.File\<close> handle reads and writes the file of that id.
\<close>

record DataFile =
  df_id :: nat
  df_reader :: "byte list option"
  df_end :: nat

definition file_bytes :: "Disk \<Rightarrow> DataFile \<Rightarrow> error + byte list" where
  "file_bytes d df =
     (case map_of (data_files d) (df_id df) of None \<Rightarrow> Inl ErrNotExist | Some c \<Rightarrow> Inr c)"

definition NewDataFile :: "Disk \<Rightarrow> nat \<Rightarrow> bool \<Rightarrow> error + (Disk \<times> DataFile)" where
  "NewDataFile d i readOnly =
     (case map_of (data_files d) i of
        None \<Rightarrow>
          if readOnly then Inl ErrNotExist
          else Inr (d\<lparr>data_files := AList.update i [] (data_files d)\<rparr>,
                    \<lparr>df_id = i, df_reader = None, df_end = 0\<rparr>)
      | Some c \<Rightarrow>
          Inr (d, \<lparr>df_id = i, df_reader = (if readOnly then Some c else None),
                   df_end = length c\<rparr>))"

definition ReadEntireRecordAt :: "Disk \<Rightarrow> DataFile \<Rightarrow> nat \<Rightarrow> nat \<Rightarrow> error + Record" where
  "ReadEntireRecordAt d df offset sz =
     bnd (case df_reader df of
            Some dat \<Rightarrow> mmap_ReadAt dat sz offset
          | None \<Rightarrow> bnd (file_bytes d df) (\<lambda>c. file_ReadAt c sz offset))
         DecodeRecord"

text \<open>
  \<open>ReadRecordAt\<close> on the bytes of the file. The payload length is
  \<open>uint32(ksize) + vsize\<close>, computed in \<open>uint32\<close>; \<open>payload[:ksize]\<close> and
  \<open>payload[ksize:]\<close> are slice expressions.
\<close>

definition read_record :: "byte list \<Rightarrow> nat \<Rightarrow> error + Record" where
  "read_record c offset =
     bnd (file_ReadAt c keyBegin offset) (\<lambda>hd.
       let f = hd ! flagPos;
           ks = Uint16 (take (valueSizeBegin - keySizeBegin) (drop keySizeBegin hd));
           vs = Uint32 (take (keyBegin - valueSizeBegin) (drop valueSizeBegin hd))
       in bnd (file_ReadAt c (unat ((ucast ks :: 32 word) + vs)) (offset + length hd)) (\<lambda>payload.
          bnd (file_ReadAt c checksumSize (offset + length hd + length payload)) (\<lambda>ck.
          bnd (slice payload 0 (unat ks)) (\<lambda>k.
          bnd (slice payload (unat ks) (length payload)) (\<lambda>v.
          Inr \<lparr>flag = f, ksize = ks, vsize = vs, key = k, val = v, checksum = Uint32 ck\<rparr>)))))"

definition ReadRecordAt :: "Disk \<Rightarrow> DataFile \<Rightarrow> nat \<Rightarrow> error + Record" where
  "ReadRecordAt d df offset = bnd (file_bytes d df) (\<lambda>c. read_record c offset)"

definition AppendRecord ::
  "Disk \<Rightarrow> DataFile \<Rightarrow> Record \<Rightarrow> error + (Disk \<times> DataFile \<times> nat \<times> nat)" where
  "AppendRecord d df r =
     (if df_reader df \<noteq> None then Inl ErrReadOnly
      else bnd (EncodeRecordWithChecksum r) (\<lambda>bytes.
           bnd (file_bytes d df) (\<lambda>c.
           Inr (d\<lparr>data_files :=
                    AList.update (df_id df) (file_WriteAt c bytes (df_end df)) (data_files d)\<rparr>,
                df\<lparr>df_end := df_end df + length bytes\<rparr>,
                df_end df, length bytes))))"



section \<open>Scanning a data file\<close>

lemma bnd_simps [simp]: "bnd (Inl e) f = Inl e" "bnd (Inr x) f = f x"
  by (simp_all add: bnd_def)

lemma bnd_eq_Inr: "bnd m f = Inr y \<longleftrightarrow> (\<exists>x. m = Inr x \<and> f x = Inr y)"
  by (cases m) simp_all

lemma bnd_InrE:
  assumes "bnd m f = Inr y"
  obtains x where "m = Inr x" and "f x = Inr y"
  using assms by (cases m) simp_all

lemma file_ReadAt_Inr:
  "file_ReadAt c n off = Inr bs \<Longrightarrow> length bs = n \<and> (n = 0 \<or> off + n \<le> length c)"
  by (auto simp: file_ReadAt_def split: if_splits)

lemma slice_Inr:
  "slice b lo hi = Inr x \<Longrightarrow> x = take (hi - lo) (drop lo b) \<and> lo \<le> hi \<and> hi \<le> length b"
  by (auto simp: slice_def split: if_splits)

text \<open>A record that was read lies inside the file and is at least eleven bytes long.\<close>

lemma read_record_bound:
  assumes "read_record c offset = Inr r"
  shows "offset + Size r \<le> length c" and "11 \<le> Size r"
proof -
  from assms obtain hd payload ck k v where
    h: "file_ReadAt c keyBegin offset = Inr hd"
    and c: "file_ReadAt c checksumSize (offset + length hd + length payload) = Inr ck"
    and k: "slice payload 0
              (unat (Uint16 (take (valueSizeBegin - keySizeBegin) (drop keySizeBegin hd)))) = Inr k"
    and v: "slice payload
              (unat (Uint16 (take (valueSizeBegin - keySizeBegin) (drop keySizeBegin hd))))
              (length payload) = Inr v"
    and r: "key r = k" "val r = v"
    unfolding read_record_def Let_def bnd_eq_Inr by auto
  have lh: "length hd = 7" using file_ReadAt_Inr [OF h] by (simp add: keyBegin_def)
  have lc: "offset + 7 + length payload + 4 \<le> length c"
    using file_ReadAt_Inr [OF c] by (simp add: lh checksumSize_def)
  have lkv: "length k + length v = length payload"
    using slice_Inr [OF k] slice_Inr [OF v] by auto
  show "offset + Size r \<le> length c"
    using lc lkv by (simp add: Size_def r keyBegin_def checksumSize_def)
  show "11 \<le> Size r"
    by (simp add: Size_def keyBegin_def checksumSize_def)
qed

text \<open>
  The loop of \<open>RecoverDataFile\<close>: read and verify records from \<open>offset\<close> until the
  file ends, a read fails, or a record is corrupted; the result is the offset reached.
\<close>

function recover_scan :: "byte list \<Rightarrow> nat \<Rightarrow> error + nat" where
  "recover_scan c offset =
     (case read_record c offset of
        Inl e \<Rightarrow> if e = EOF then Inr offset else Inl e
      | Inr r \<Rightarrow> if Corrupted r then Inr offset else recover_scan c (offset + Size r))"
  by pat_completeness auto
termination
proof (relation "measure (\<lambda>(c, offset). length c - offset)")
  show "wf (measure (\<lambda>(c, offset). length c - offset))" by simp
next
  fix c offset r
  assume "read_record c offset = Inr r"
  from read_record_bound [OF this]
  show "((c, offset + Size r), (c, offset)) \<in> measure (\<lambda>(c, offset). length c - offset)"
    by simp
qed

declare recover_scan.simps [simp del]

text \<open>
  \<open>io.ReadFull(file, data)\<close> reads from the start of the handle, which was opened just
  before; \<open>os.WriteFile\<close> replaces the content of the file.
\<close>

definition RecoverDataFile :: "Disk \<Rightarrow> DataFile \<Rightarrow> error + (Disk \<times> DataFile \<times> bool)" where
  "RecoverDataFile d file =
     bnd (file_bytes d file) (\<lambda>c.
     bnd (recover_scan c 0) (\<lambda>offset.
       if offset = df_end file then Inr (d, file, False)
       else bnd (ReadFull c offset) (\<lambda>(dat, rest).
            Inr (d\<lparr>data_files := AList.update (df_id file) dat (data_files d)\<rparr>,
                 file\<lparr>df_end := offset\<rparr>, True))))"

section \<open>Index, hint and meta files\<close>

text \<open>
  The in-memory index is a Go map from key to entry. It is an association list here, with
  \<open>map_of\<close> for lookup; the order of the list stands for the order in which the
  runtime iterates the map, which Go leaves unspecified.
\<close>

type_synonym index = "(byte list \<times> Entry) list"

definition index_frame :: "byte list \<Rightarrow> Entry \<Rightarrow> byte list" where
  "index_frame k e = PutUint16 (of_nat (length k)) @ k @ EncodeEntry e"

text \<open>
  \<open>SaveIndex\<close> opens the file with \<open>O_RDWR|O_CREATE\<close> and writes the frames from the
  start; \<open>SaveHint\<close> uses \<open>os.Create\<close>, which truncates.
\<close>

definition SaveIndex :: "index \<Rightarrow> Disk \<Rightarrow> Disk" where
  "SaveIndex idx d =
     (let old = (case index_file d of None \<Rightarrow> [] | Some c \<Rightarrow> c)
      in d\<lparr>index_file := Some (file_WriteAt old (concat (map (\<lambda>(k, e). index_frame k e) idx)) 0)\<rparr>)"

definition SaveHint :: "index \<Rightarrow> Disk \<Rightarrow> nat \<Rightarrow> Disk" where
  "SaveHint hint d i =
     d\<lparr>hint_files := AList.update i (concat (map (\<lambda>(k, e). index_frame k e) hint)) (hint_files d)\<rparr>"

definition ReadIndex :: "byte list \<Rightarrow> error + (byte list \<times> Entry \<times> byte list)" where
  "ReadIndex s =
     bnd (ReadFull s 2) (\<lambda>(hd, s1).
     bnd (ReadFull s1 (unat (Uint16 hd))) (\<lambda>(k, s2).
     bnd (ReadFull s2 sizeEnd) (\<lambda>(payload, s3).
     Inr (k, DecodeEntry payload, s3))))"

lemma ReadFull_Inr:
  "ReadFull s n = Inr (x, s') \<Longrightarrow> length x = n \<and> s = x @ s'"
  by (auto simp: ReadFull_def split: if_splits)

lemma ReadIndex_Inr:
  assumes "ReadIndex s = Inr (k, e, s')"
  shows "\<exists>hd payload. s = hd @ k @ payload @ s' \<and> length hd = 2 \<and> length k = unat (Uint16 hd)
           \<and> length payload = sizeEnd \<and> e = DecodeEntry payload"
  using assms unfolding ReadIndex_def
  by (auto elim!: bnd_InrE dest!: ReadFull_Inr)

lemma ReadIndex_shorter: "ReadIndex s = Inr (k, e, s') \<Longrightarrow> length s' < length s"
  by (drule ReadIndex_Inr) auto

function load_index_loop :: "byte list \<Rightarrow> index \<Rightarrow> error + index" where
  "load_index_loop s idx =
     (case ReadIndex s of
        Inl e \<Rightarrow> if e = EOF then Inr idx else Inl e
      | Inr (k, e, s') \<Rightarrow> load_index_loop s' (AList.update k e idx))"
  by pat_completeness auto
termination
proof (relation "measure (\<lambda>(s, idx). length s)")
  show "wf (measure (\<lambda>(s, idx). length s))" by simp
next
  fix s idx x2 k y e s'
  assume "ReadIndex s = Inr x2" "(k, y) = x2" "(e, s') = y"
  then have "ReadIndex s = Inr (k, e, s')" by simp
  from ReadIndex_shorter [OF this]
  show "((s', AList.update k e idx), (s, idx)) \<in> measure (\<lambda>(s, idx). length s)" by simp
qed

declare load_index_loop.simps [simp del]

definition LoadIndex :: "Disk \<Rightarrow> error + index" where
  "LoadIndex d =
     (case index_file d of None \<Rightarrow> Inl ErrNotExist | Some c \<Rightarrow> load_index_loop c [])"

definition LoadMeta :: "Disk \<Rightarrow> error + Meta" where
  "LoadMeta d =
     (case meta_file d of
        Absent \<Rightarrow> Inr \<lparr>IndexUpToDate = False, ReusableSpace = 0\<rparr>
      | Malformed \<Rightarrow> Inl ErrBadMeta
      | Holds m \<Rightarrow> Inr m)"

definition SaveMeta :: "Meta \<Rightarrow> Disk \<Rightarrow> Disk" where
  "SaveMeta m d = d\<lparr>meta_file := Holds m\<rparr>"


section \<open>Loading data files and rebuilding the index\<close>

text \<open>
  \<open>LoadDataFiles\<close> opens the \<open>.data\<close> files in the order of their sorted names, the
  last one read-write and the others read-only. The names are the ids printed with eight
  digits, so for ids below \<open>10 ^ 8\<close> the order of the names is the order of the ids.
\<close>

fun open_files :: "Disk \<Rightarrow> nat list \<Rightarrow> error + (Disk \<times> DataFile list)" where
  "open_files d [] = Inr (d, [])"
| "open_files d [i] = bnd (NewDataFile d i False) (\<lambda>(d', f). Inr (d', [f]))"
| "open_files d (i # ids) =
     bnd (NewDataFile d i True) (\<lambda>(d', f).
     bnd (open_files d' ids) (\<lambda>(d'', fs). Inr (d'', f # fs)))"

definition LoadDataFiles :: "Disk \<Rightarrow> error + (Disk \<times> DataFile list)" where
  "LoadDataFiles d = open_files d (sort (map fst (data_files d)))"

text \<open>
  The loop of \<open>LoadIndexFromDataFile\<close>, which \<open>LoadIndexFromDataFiles\<close> repeats word
  for word for each file: after \<open>delete\<close> for a deleted record the body goes on to
  store the entry under the key.
\<close>

function index_scan :: "byte list \<Rightarrow> nat \<Rightarrow> nat \<Rightarrow> index \<Rightarrow> error + index" where
  "index_scan c fid offset idx =
     (case read_record c offset of
        Inl e \<Rightarrow> if e = EOF then Inr idx else Inl e
      | Inr r \<Rightarrow>
          let idx1 = (if IsDeleted r then AList.delete (key r) idx else idx);
              entry = \<lparr>ID = fid, Offset = offset, ESize = Size r\<rparr>;
              idx2 = AList.update (key r) entry idx1
          in index_scan c fid (offset + Size r) idx2)"
  by pat_completeness auto
termination
proof (relation "measure (\<lambda>(c, fid, offset, idx). length c - offset)")
  show "wf (measure (\<lambda>(c, fid, offset, idx). length c - offset))" by simp
next
  fix c fid offset idx r x xa xb
  assume "read_record c offset = Inr r"
  from read_record_bound [OF this]
  show "((c, fid, offset + Size r, xb), (c, fid, offset, idx))
          \<in> measure (\<lambda>(c, fid, offset, idx). length c - offset)"
    by simp
qed

declare index_scan.simps [simp del]

definition LoadIndexFromDataFile :: "Disk \<Rightarrow> index \<Rightarrow> DataFile \<Rightarrow> error + index" where
  "LoadIndexFromDataFile d idx file =
     bnd (file_bytes d file) (\<lambda>c. index_scan c (df_id file) 0 idx)"

fun LoadIndexFromDataFiles :: "Disk \<Rightarrow> index \<Rightarrow> DataFile list \<Rightarrow> error + index" where
  "LoadIndexFromDataFiles d idx [] = Inr idx"
| "LoadIndexFromDataFiles d idx (file # files) =
     bnd (LoadIndexFromDataFile d idx file) (\<lambda>idx'. LoadIndexFromDataFiles d idx' files)"

section \<open>The engine\<close>

record Config =
  DataFileMaxSize :: int
  AutoMerging :: bool
  SyncWrite :: bool
  MergeSpaceThreshold :: int

definition DefaultConfig :: Config where
  "DefaultConfig =
     \<lparr>DataFileMaxSize = 2 ^ 32, AutoMerging = False, SyncWrite = False,
      MergeSpaceThreshold = 2 ^ 32\<rparr>"

text \<open>
  The engine state without the mutex, the ticker and the channel. An operation takes the
  directory and the engine and returns both. Closing a handle and \<open>Sync\<close> change neither.
\<close>

record MKV =
  config :: Config
  meta :: Meta
  cur :: DataFile
  dataFiles :: "(nat \<times> DataFile) list"
  index :: index
  isMerging :: bool

definition seal_all :: "DataFile list \<Rightarrow> (nat \<times> DataFile) list" where
  "seal_all files = foldl (\<lambda>m f. AList.update (df_id f) f m) [] files"

definition Open :: "Config \<Rightarrow> Disk \<Rightarrow> error + (Disk \<times> MKV)" where
  "Open cfg d0 =
     (if locked d0 then Inl ErrDirLocked
      else
        let d = d0\<lparr>locked := True\<rparr> in
        bnd (LoadMeta d) (\<lambda>mt.
        bnd (LoadDataFiles d) (\<lambda>(d1, files).
          if files = [] then
            bnd (NewDataFile d1 0 False) (\<lambda>(d2, c).
            Inr (d2, \<lparr>config = cfg, meta = mt, cur = c, dataFiles = [], index = [],
                      isMerging = False\<rparr>))
          else
            bnd (RecoverDataFile d1 (last files)) (\<lambda>(d2, c, recovered).
            let d3 = (if recovered \<and> index_file d2 \<noteq> None then d2\<lparr>index_file := None\<rparr> else d2)
            in bnd (if IndexUpToDate mt \<and> index_file d3 \<noteq> None then LoadIndex d3
                    else LoadIndexFromDataFiles d3 [] (butlast files @ [c])) (\<lambda>idx.
               Inr (d3, \<lparr>config = cfg, meta = mt, cur = c,
                         dataFiles = seal_all (butlast files), index = idx,
                         isMerging = False\<rparr>))))))"

definition createHintFile :: "Disk \<times> MKV \<Rightarrow> nat \<Rightarrow> Disk" where
  "createHintFile s i =
     (case s of (d, m) \<Rightarrow> SaveHint (filter (\<lambda>(k, e). ID e = i) (index m)) d i)"

definition mayCreateNewDataFile :: "Disk \<times> MKV \<Rightarrow> error + (Disk \<times> MKV)" where
  "mayCreateNewDataFile s =
     (case s of (d, m) \<Rightarrow>
        if int (df_end (cur m)) < DataFileMaxSize (config m) then Inr (d, m)
        else
          let i = df_id (cur m) in
          bnd (NewDataFile d i True) (\<lambda>(d1, df).
          let m1 = m\<lparr>dataFiles := AList.update i df (dataFiles m)\<rparr>;
              d2 = createHintFile (d1, m1) i
          in bnd (NewDataFile d2 (i + 1) False) (\<lambda>(d3, c). Inr (d3, m1\<lparr>cur := c\<rparr>))))"

definition add_reusable :: "MKV \<Rightarrow> byte list \<Rightarrow> Meta" where
  "add_reusable m k =
     (case map_of (index m) k of
        Some old \<Rightarrow> (meta m)\<lparr>ReusableSpace := ReusableSpace (meta m) + of_nat (ESize old)\<rparr>
      | None \<Rightarrow> meta m)"

definition Put :: "Disk \<times> MKV \<Rightarrow> byte list \<Rightarrow> byte list \<Rightarrow> error + (Disk \<times> MKV)" where
  "Put s k v =
     bnd (mayCreateNewDataFile s) (\<lambda>(d, m).
     bnd (AppendRecord d (cur m) (NewRecordWithoutChecksum NormalFlag k v)) (\<lambda>(d', c, offset, sz).
     let entry = \<lparr>ID = df_id c, Offset = offset, ESize = sz\<rparr>
     in Inr (d', m\<lparr>cur := c, meta := add_reusable m k,
                    index := AList.update k entry (index m)\<rparr>)))"


text \<open>
  \<open>Get\<close>. An id that is neither the active file's nor a key of \<open>dataFiles\<close> yields a nil
  \<open>*DataFile\<close>, and the read through it panics.
\<close>

definition Get :: "Disk \<times> MKV \<Rightarrow> byte list \<Rightarrow> error + byte list" where
  "Get s k =
     (case s of (d, m) \<Rightarrow>
        case map_of (index m) k of
          None \<Rightarrow> Inl ErrKeyNotFound
        | Some entry \<Rightarrow>
            bnd (if ID entry = df_id (cur m) then Inr (cur m)
                 else case map_of (dataFiles m) (ID entry) of
                        None \<Rightarrow> Inl Panic
                      | Some df \<Rightarrow> Inr df) (\<lambda>df.
            bnd (ReadEntireRecordAt d df (Offset entry) (ESize entry)) (\<lambda>r. Inr (val r))))"

definition Delete :: "Disk \<times> MKV \<Rightarrow> byte list \<Rightarrow> error + (Disk \<times> MKV)" where
  "Delete s k =
     bnd (mayCreateNewDataFile s) (\<lambda>(d, m).
     bnd (AppendRecord d (cur m) (SetDeleted (NewRecordWithoutChecksum NormalFlag k []))) (\<lambda>(d', c, offset, sz).
     Inr (d', m\<lparr>cur := c, meta := add_reusable m k, index := AList.delete k (index m)\<rparr>)))"

definition close :: "Disk \<times> MKV \<Rightarrow> error + (Disk \<times> MKV)" where
  "close s =
     (case s of (d, m) \<Rightarrow>
        let d1 = SaveIndex (index m) d;
            mt = (meta m)\<lparr>IndexUpToDate := True\<rparr>
        in Inr (SaveMeta mt d1, m\<lparr>meta := mt\<rparr>))"

definition Close :: "Disk \<times> MKV \<Rightarrow> error + (Disk \<times> MKV)" where
  "Close s = bnd (close s) (\<lambda>(d, m). Inr (d\<lparr>locked := False\<rparr>, m))"

section \<open>Merge\<close>

definition closeCurrent :: "Disk \<times> MKV \<Rightarrow> error + (Disk \<times> MKV)" where
  "closeCurrent s =
     (case s of (d, m) \<Rightarrow>
        bnd (NewDataFile d (df_id (cur m)) True) (\<lambda>(d1, df).
        Inr (d1, m\<lparr>dataFiles := AList.update (df_id (cur m)) df (dataFiles m)\<rparr>)))"

definition openNewDataFile :: "Disk \<times> MKV \<Rightarrow> error + (Disk \<times> MKV)" where
  "openNewDataFile s =
     (case s of (d, m) \<Rightarrow>
        bnd (NewDataFile d (df_id (cur m) + 1) False) (\<lambda>(d1, c). Inr (d1, m\<lparr>cur := c\<rparr>)))"

definition reload :: "Disk \<times> MKV \<Rightarrow> error + (Disk \<times> MKV)" where
  "reload s =
     (case s of (d, m) \<Rightarrow>
        bnd (LoadDataFiles d) (\<lambda>(d1, files).
          if files = [] then
            bnd (NewDataFile d1 0 False) (\<lambda>(d2, c).
            Inr (d2, m\<lparr>cur := c, dataFiles := [], index := []\<rparr>))
          else
            bnd (LoadIndex d1) (\<lambda>idx.
            Inr (d1, m\<lparr>cur := last files, dataFiles := seal_all (butlast files),
                        index := idx\<rparr>))))"

text \<open>
  \<open>filesToMerge[len(filesToMerge)-1]\<close> panics on an empty slice.
\<close>

definition last_id :: "nat list \<Rightarrow> error + nat" where
  "last_id ids = (if ids = [] then Inl Panic else Inr (last ids))"

text \<open>The replay of the live index into the temporary engine.\<close>

fun replay :: "Disk \<times> MKV \<Rightarrow> nat list \<Rightarrow> index \<Rightarrow> Disk \<times> MKV \<Rightarrow> error + (Disk \<times> MKV)" where
  "replay s ids [] tmp = Inr tmp"
| "replay s ids ((k, e) # rest) tmp =
     bnd (last_id ids) (\<lambda>mx.
       if ID e > mx then replay s ids rest tmp
       else bnd (Get s k) (\<lambda>v.
            bnd (Put tmp k v) (\<lambda>tmp'. replay s ids rest tmp')))"

text \<open>The removal of the merged data files; \<open>os.Remove\<close> fails on a missing file.\<close>

fun remove_merged :: "nat list \<Rightarrow> DataFile list \<Rightarrow> Disk \<Rightarrow> error + Disk" where
  "remove_merged ids [] d = Inr d"
| "remove_merged ids (f # fs) d =
     bnd (last_id ids) (\<lambda>mx.
       if df_id f > mx then remove_merged ids fs d
       else if map_of (data_files d) (df_id f) = None then Inl ErrNotExist
       else remove_merged ids fs (d\<lparr>data_files := AList.delete (df_id f) (data_files d)\<rparr>))"

text \<open>
  Every file of the temporary directory but its lock file is renamed into the root
  directory, replacing a file of the same name.
\<close>

definition rename_all :: "Disk \<Rightarrow> Disk \<Rightarrow> Disk" where
  "rename_all t d =
     d\<lparr>meta_file := (if meta_file t = Absent then meta_file d else meta_file t),
       index_file := (if index_file t = None then index_file d else index_file t),
       data_files := foldl (\<lambda>fs (i, c). AList.update i c fs) (data_files d) (data_files t),
       hint_files := foldl (\<lambda>fs (i, c). AList.update i c fs) (hint_files d) (hint_files t)\<rparr>"

definition empty_dir :: Disk where
  "empty_dir =
     \<lparr>locked = False, meta_file = Absent, index_file = None, data_files = [], hint_files = []\<rparr>"

text \<open>
  \<open>Merge\<close>, run by one caller at a time: \<open>isMerging\<close> is set on entry and cleared by the
  deferred function when it returns.
\<close>

definition Merge :: "Disk \<times> MKV \<Rightarrow> error + (Disk \<times> MKV)" where
  "Merge s =
     (case s of (d, m) \<Rightarrow>
        if isMerging m then Inr (d, m)
        else
          bnd (closeCurrent (d, m\<lparr>isMerging := True\<rparr>)) (\<lambda>(d1, m1).
          let filesToMerge = sort (map fst (dataFiles m1)) in
          bnd (openNewDataFile (d1, m1)) (\<lambda>(d2, m2).
          bnd (Open DefaultConfig empty_dir) (\<lambda>tmp.
          bnd (replay (d2, m2) filesToMerge (index m2) tmp) (\<lambda>tmp1.
          bnd (Close tmp1) (\<lambda>(t, tm).
          bnd (close (d2, m2)) (\<lambda>(d3, m3).
          bnd (remove_merged filesToMerge (map snd (dataFiles m3)) d3) (\<lambda>d4.
          let d5 = rename_all t d4;
              m4 = m3\<lparr>meta := (meta m3)\<lparr>ReusableSpace := 0, IndexUpToDate := True\<rparr>\<rparr>
          in bnd (reload (d5, m4)) (\<lambda>(d6, m5). Inr (d6, m5\<lparr>isMerging := False\<rparr>))))))))))"

text \<open>
  \<open>Merge\<close> holds the mutex only in parts. It releases it after \<open>openNewDataFile\<close> and
  takes the write lock again before \<open>m.close()\<close>; the temporary engine is opened, filled
  and closed in between, where other callers can run. \<open>Merge_begin\<close> is the part up to
  the release, returning \<open>filesToMerge\<close>, and \<open>Merge_finish\<close> is the rest, run from the
  state the engine has by then.
\<close>

definition Merge_begin :: "Disk \<times> MKV \<Rightarrow> error + ((Disk \<times> MKV) \<times> nat list)" where
  "Merge_begin s =
     (case s of (d, m) \<Rightarrow>
        bnd (closeCurrent (d, m\<lparr>isMerging := True\<rparr>)) (\<lambda>(d1, m1).
        bnd (openNewDataFile (d1, m1)) (\<lambda>s2. Inr (s2, sort (map fst (dataFiles m1))))))"

definition Merge_finish :: "Disk \<times> MKV \<Rightarrow> nat list \<Rightarrow> error + (Disk \<times> MKV)" where
  "Merge_finish s filesToMerge =
     (case s of (d2, m2) \<Rightarrow>
        bnd (Open DefaultConfig empty_dir) (\<lambda>tmp.
        bnd (replay (d2, m2) filesToMerge (index m2) tmp) (\<lambda>tmp1.
        bnd (Close tmp1) (\<lambda>(t, tm).
        bnd (close (d2, m2)) (\<lambda>(d3, m3).
        bnd (remove_merged filesToMerge (map snd (dataFiles m3)) d3) (\<lambda>d4.
        let d5 = rename_all t d4;
            m4 = m3\<lparr>meta := (meta m3)\<lparr>ReusableSpace := 0, IndexUpToDate := True\<rparr>\<rparr>
        in bnd (reload (d5, m4)) (\<lambda>(d6, m5). Inr (d6, m5\<lparr>isMerging := False\<rparr>))))))))"

lemma Merge_split:
  "Merge s =
     (if isMerging (snd s) then Inr s
      else bnd (Merge_begin s) (\<lambda>(s2, filesToMerge). Merge_finish s2 filesToMerge))"
proof (cases s)
  case (Pair d m)
  show ?thesis
  proof (cases "isMerging m")
    case True
    then show ?thesis by (simp add: Merge_def Pair)
  next
    case False
    show ?thesis
    proof (cases "closeCurrent (d, m\<lparr>isMerging := True\<rparr>)")
      case (Inl e)
      with False show ?thesis by (simp add: Merge_def Merge_begin_def Pair)
    next
      case (Inr x1)
      obtain d1 m1 where x1: "x1 = (d1, m1)" by (cases x1)
      show ?thesis
      proof (cases "openNewDataFile (d1, m1)")
        case (Inl e)
        with False Inr x1 show ?thesis by (simp add: Merge_def Merge_begin_def Pair Let_def)
      next
        case r2: (Inr x2)
        obtain d2 m2 where x2: "x2 = (d2, m2)" by (cases x2)
        from False Inr x1 r2 x2 show ?thesis
          by (simp add: Merge_def Merge_begin_def Merge_finish_def Pair Let_def)
      qed
    qed
  qed
qed

section \<open>Facts about the record codec\<close>

lemmas layout_defs = flagPos_def keySizeBegin_def valueSizeBegin_def keyBegin_def checksumSize_def

lemma layout_vals:
  "flagPos = 0" "keySizeBegin = 1" "valueSizeBegin = 3" "keyBegin = 7" "checksumSize = 4"
  by (simp_all add: layout_defs)

lemma length_PutUint16 [simp]: "length (PutUint16 v) = 2"
  by (simp add: PutUint16_def)

lemma length_PutUint32 [simp]: "length (PutUint32 v) = 4"
  by (simp add: PutUint32_def)

lemma length_header [simp]: "length (header f ks vs) = 7"
  by (simp add: header_def)

lemma header_fill:
  "(let b0 = replicate (7 + m) (0 :: byte);
        b1 = b0[0 := f];
        b2 = take 1 b1 @ PutUint16 a @ drop 3 b1;
        b3 = take 3 b2 @ PutUint32 b @ drop 7 b2 in b3) = header f a b @ replicate m 0"
  by (simp add: Let_def header_def PutUint16_def PutUint32_def replicate_add numeral_eq_Suc)

lemma unat_ucast_16_32 [simp]: "unat (ucast (w :: 16 word) :: 32 word) = unat w"
proof -
  have "unat w < 2 ^ 16" using unsigned_less [of w] by simp
  then have "unat w < 2 ^ 32" by simp
  then show ?thesis by (simp add: unsigned_ucast_eq take_bit_nat_eq_self)
qed

lemma copy_into_window:
  "length a = lo \<Longrightarrow> n \<le> length src \<Longrightarrow> hi = lo + n \<Longrightarrow>
   copy_into (a @ replicate (n + m) 0) lo hi src = Inr (a @ take n src @ replicate m 0)"
  by (simp add: copy_into_def min_def replicate_add)

lemma slice_prefix: "n = length a \<Longrightarrow> slice (a @ b) 0 n = Inr a"
  by (simp add: slice_def)

lemma unat_valueStart:
  "unat (ks :: 16 word) \<le> 65528 \<Longrightarrow> unat ((7 :: 16 word) + ks) = 7 + unat ks"
  by (simp add: unat_word_ariths(1))

lemma unat_checksumStart:
  "unat (ks :: 16 word) \<le> 65528 \<Longrightarrow> 7 + unat ks + unat (vs :: 32 word) < 2 ^ 32 \<Longrightarrow>
   unat ((ucast ((7 :: 16 word) + ks) :: 32 word) + vs) = 7 + unat ks + unat vs"
  by (simp add: unat_word_ariths(1) [where 'a = 32] unat_valueStart)

lemma unat_checksumEnd:
  "unat (ks :: 16 word) \<le> 65528 \<Longrightarrow> 7 + unat ks + unat (vs :: 32 word) + 4 < 2 ^ 32 \<Longrightarrow>
   unat ((ucast ((7 :: 16 word) + ks) :: 32 word) + vs + 4) = 7 + unat ks + unat vs + 4"
proof -
  assume a: "unat ks \<le> 65528" and b: "7 + unat ks + unat vs + 4 < 2 ^ 32"
  define X where "X = (ucast ((7 :: 16 word) + ks) :: 32 word) + vs"
  have X: "unat X = 7 + unat ks + unat vs"
    unfolding X_def using a b by (intro unat_checksumStart) simp_all
  have "unat (X + 4) = (unat X + 4) mod 2 ^ 32"
    by (simp add: unat_word_ariths(1) [where 'a = 32])
  also have "\<dots> = 7 + unat ks + unat vs + 4"
    unfolding X using b by simp
  finally show ?thesis unfolding X_def .
qed

lemma Encode_layout:
  assumes ku: "unat (ksize r) \<le> length (key r)" and vu: "unat (vsize r) \<le> length (val r)"
    and kb: "unat (ksize r) \<le> 65528"
    and tb: "7 + unat (ksize r) + unat (vsize r) + 4 < 2 ^ 32"
  shows "EncodeRecordWithChecksum r = Inr (layout r)"
proof -
  define K where "K = unat (ksize r)"
  define V where "V = unat (vsize r)"
  define p where "p = length (key r) - K + (length (val r) - V)"
  define h where "h = header (flag r) (ksize r) (vsize r)"
  define body where "body = h @ take K (key r) @ take V (val r)"
  have tb': "7 + K + V < 2 ^ 32" using tb by (simp add: K_def V_def)
  have vstart: "unat ((7 :: 16 word) + ksize r) = 7 + K"
    using kb by (simp add: unat_valueStart K_def)
  have cstart: "unat ((ucast ((7 :: 16 word) + ksize r) :: 32 word) + vsize r) = 7 + K + V"
    unfolding K_def V_def using kb tb' [unfolded K_def V_def] by (rule unat_checksumStart)
  have cend: "unat ((ucast ((7 :: 16 word) + ksize r) :: 32 word) + vsize r + 4) = 7 + K + V + 4"
    unfolding K_def V_def using kb tb by (rule unat_checksumEnd)
  have sz: "Size r = 7 + (K + (V + (4 + p)))"
    using ku vu by (simp add: Size_def layout_defs p_def K_def V_def)
  have b3: "(let b0 = replicate (7 + (K + (V + (4 + p)))) (0 :: byte);
        b1 = b0[0 := flag r];
        b2 = take 1 b1 @ PutUint16 (ksize r) @ drop 3 b1;
        b3 = take 3 b2 @ PutUint32 (vsize r) @ drop 7 b2 in b3) = h @ replicate (K + (V + (4 + p))) 0"
    unfolding h_def by (rule header_fill)
  have s1: "copy_into (h @ replicate (K + (V + (4 + p))) 0) 7 (7 + K) (key r)
            = Inr (h @ take K (key r) @ replicate (V + (4 + p)) 0)"
    using ku by (intro copy_into_window) (simp_all add: h_def K_def)
  have s2: "copy_into (h @ take K (key r) @ replicate (V + (4 + p)) 0) (7 + K) (7 + K + V) (val r)
            = Inr (body @ replicate (4 + p) 0)"
    using copy_into_window [of "h @ take K (key r)" "7 + K" V "val r" "7 + K + V" "4 + p"] ku vu
    by (simp add: h_def K_def V_def body_def)
  have s3: "slice (body @ replicate (4 + p) 0) 0 (7 + K + V) = Inr body"
    using ku vu by (intro slice_prefix) (simp add: body_def h_def K_def V_def)
  have s4: "copy_into (body @ replicate (4 + p) 0) (7 + K + V) (7 + K + V + 4) (PutUint32 c)
            = Inr (body @ PutUint32 c @ replicate p 0)" for c
    using copy_into_window [of body "7 + K + V" 4 "PutUint32 c" "7 + K + V + 4" p] ku vu
    by (simp add: body_def h_def K_def V_def)
  have lay: "layout r = body @ PutUint32 (ChecksumIEEE body) @ replicate p 0"
    by (simp add: layout_def Let_def body_def h_def K_def V_def p_def)
  show ?thesis
    unfolding EncodeRecordWithChecksum_def layout_vals sz lay Let_def of_nat_numeral
      b3 [unfolded Let_def] vstart cstart cend
    by (simp only: s1 bnd_simps s2 s3 s4)
qed


lemma Uint16_Put [simp]: "Uint16 (PutUint16 v) = v"
  unfolding Uint16_def PutUint16_def
  apply simp
  apply (rule bit_word_eqI)
  apply (auto simp: bit_simps)
  done

lemma Uint32_Put [simp]: "Uint32 (PutUint32 v) = v"
  unfolding Uint32_def PutUint32_def
  apply simp
  apply (rule bit_word_eqI)
  subgoal for n
    apply (cases "n < 8"; cases "n < 16"; cases "n < 24")
    apply (auto simp: bit_simps)
    done
  done

lemma slice_mid:
  "length a = lo \<Longrightarrow> hi = lo + length b \<Longrightarrow> slice (a @ b @ c) lo hi = Inr b"
  by (simp add: slice_def)

lemma header_parts:
  "(header f ks vs @ xs) ! 0 = f"
  "take 2 (drop 1 (header f ks vs @ xs)) = PutUint16 ks"
  "take 4 (drop 3 (header f ks vs @ xs)) = PutUint32 vs"
  by (simp_all add: header_def PutUint16_def PutUint32_def)

lemma Decode_frame:
  assumes lk: "length k = unat ks" and lv: "length v = unat vs"
    and kb: "unat ks \<le> 65528"
    and tb: "7 + unat ks + unat vs + 4 < 2 ^ 32"
  shows "DecodeRecord (header f ks vs @ k @ v @ PutUint32 c @ rest)
         = Inr \<lparr>flag = f, ksize = ks, vsize = vs, key = k, val = v, checksum = c\<rparr>"
proof -
  let ?h = "header f ks vs"
  have tb': "7 + unat ks + unat vs < 2 ^ 32" using tb by simp
  have vstart: "unat ((7 :: 16 word) + ks) = 7 + unat ks"
    using kb by (rule unat_valueStart)
  have cstart: "unat ((ucast ((7 :: 16 word) + ks) :: 32 word) + vs) = 7 + unat ks + unat vs"
    using kb tb' by (rule unat_checksumStart)
  have cend: "unat ((ucast ((7 :: 16 word) + ks) :: 32 word) + vs + 4) = 7 + unat ks + unat vs + 4"
    using kb tb by (rule unat_checksumEnd)
  have s1: "slice (?h @ k @ v @ PutUint32 c @ rest) 7 (7 + unat ks) = Inr k"
    by (rule slice_mid) (simp_all add: lk)
  have s2: "slice (?h @ k @ v @ PutUint32 c @ rest) (7 + unat ks) (7 + unat ks + unat vs) = Inr v"
    using slice_mid [of "?h @ k" "7 + unat ks" "7 + unat ks + unat vs" v "PutUint32 c @ rest"]
    by (simp add: lk lv)
  have s3: "slice (?h @ k @ v @ PutUint32 c @ rest) (7 + unat ks + unat vs)
              (7 + unat ks + unat vs + 4) = Inr (PutUint32 c)"
    using slice_mid [of "?h @ k @ v" "7 + unat ks + unat vs" "7 + unat ks + unat vs + 4"
                        "PutUint32 c" rest]
    by (simp add: lk lv)
  have len: "\<not> length (?h @ k @ v @ PutUint32 c @ rest) < 7" by simp
  have two: "(3 :: nat) - 1 = 2" and four: "(7 :: nat) - 3 = 4" by simp_all
  show ?thesis
    unfolding DecodeRecord_def layout_vals Let_def of_nat_numeral two four header_parts
      Uint16_Put Uint32_Put vstart cstart cend s1 s2 s3 bnd_simps
    using len by (simp only: if_False)
qed


lemma copy_into_Inr: "copy_into b lo hi src = Inr x \<Longrightarrow> lo \<le> hi \<and> hi \<le> length b"
  by (auto simp: copy_into_def split: if_splits)

lemma add_mod_no_wrap:
  fixes a x m :: nat
  assumes "x < m" and "a \<le> m" and "a \<le> (a + x) mod m"
  shows "a + x < m"
proof (rule ccontr)
  assume "\<not> a + x < m"
  then have ge: "m \<le> a + x" by simp
  have "a + x - m < m" using assms(1,2) ge by arith
  then have "(a + x) mod m = a + x - m" using ge by (simp add: le_mod_geq)
  then show False using assms(1,3) ge by arith
qed

lemma valueStart_no_wrap:
  "7 \<le> unat ((7 :: 16 word) + ks) \<Longrightarrow> unat ks \<le> 65528"
proof -
  assume a: "7 \<le> unat ((7 :: 16 word) + ks)"
  have k: "unat ks < 65536" using unsigned_less [of ks] by simp
  have "unat ((7 :: 16 word) + ks) = (7 + unat ks) mod 65536"
    by (simp add: unat_word_ariths(1))
  with a have "7 \<le> (7 + unat ks) mod 65536" by simp
  with k have "7 + unat ks < 65536" by (intro add_mod_no_wrap) simp_all
  then show ?thesis by simp
qed

lemma checksumStart_no_wrap:
  assumes "unat (ks :: 16 word) \<le> 65528"
    and "unat ((7 :: 16 word) + ks) \<le> unat ((ucast ((7 :: 16 word) + ks) :: 32 word) + vs)"
  shows "7 + unat ks + unat vs < 2 ^ 32"
proof -
  have v: "unat vs < 2 ^ 32" using unsigned_less [of vs] by simp
  have a: "unat ((7 :: 16 word) + ks) = 7 + unat ks" using assms(1) by (rule unat_valueStart)
  have "unat ((ucast ((7 :: 16 word) + ks) :: 32 word) + vs) = (7 + unat ks + unat vs) mod 2 ^ 32"
    by (simp add: unat_word_ariths(1) [where 'a = 32] a)
  with assms(2) a have "7 + unat ks \<le> (7 + unat ks + unat vs) mod 2 ^ 32" by simp
  with v assms(1) show ?thesis by (intro add_mod_no_wrap) simp_all
qed

lemma checksumEnd_no_wrap:
  assumes "unat (ks :: 16 word) \<le> 65528" and "7 + unat ks + unat (vs :: 32 word) < 2 ^ 32"
    and "unat ((ucast ((7 :: 16 word) + ks) :: 32 word) + vs)
         \<le> unat ((ucast ((7 :: 16 word) + ks) :: 32 word) + vs + 4)"
  shows "7 + unat ks + unat vs + 4 < 2 ^ 32"
proof -
  define X where "X = (ucast ((7 :: 16 word) + ks) :: 32 word) + vs"
  have X: "unat X = 7 + unat ks + unat vs"
    unfolding X_def using assms(1,2) by (rule unat_checksumStart)
  have "unat (X + 4) = (unat X + 4) mod 2 ^ 32"
    by (simp add: unat_word_ariths(1) [where 'a = 32])
  with assms(3) have "unat X \<le> (unat X + 4) mod 2 ^ 32" by (simp add: X_def)
  then have "unat X + 4 < 2 ^ 32" using assms(2) X by (intro add_mod_no_wrap) simp_all
  then show ?thesis by (simp add: X)
qed

lemma Encode_Inr_bounds:
  assumes "EncodeRecordWithChecksum r = Inr bs"
  shows "unat (ksize r) \<le> 65528" and "7 + unat (ksize r) + unat (vsize r) + 4 < 2 ^ 32"
proof -
  from assms obtain b4 b5 where
    a: "7 \<le> unat ((7 :: 16 word) + ksize r)"
    and b: "unat ((7 :: 16 word) + ksize r) \<le> unat ((ucast ((7 :: 16 word) + ksize r) :: 32 word) + vsize r)"
    and c: "unat ((ucast ((7 :: 16 word) + ksize r) :: 32 word) + vsize r)
            \<le> unat ((ucast ((7 :: 16 word) + ksize r) :: 32 word) + vsize r + 4)"
    unfolding EncodeRecordWithChecksum_def layout_vals Let_def of_nat_numeral
    by (auto elim!: bnd_InrE dest!: copy_into_Inr)
  show k: "unat (ksize r) \<le> 65528" using a by (rule valueStart_no_wrap)
  have "7 + unat (ksize r) + unat (vsize r) < 2 ^ 32" using k b by (rule checksumStart_no_wrap)
  with k show "7 + unat (ksize r) + unat (vsize r) + 4 < 2 ^ 32" using c by (rule checksumEnd_no_wrap)
qed

text \<open>
  Whenever the encoder returns, neither \<open>valueStart\<close> nor \<open>checksumStart\<close> wrapped, the
  bytes are the layout, and decoding them gives back the header fields, the encoded parts
  of key and value, and the checksum of the bytes before it.
\<close>

lemma Encode_Inr_layout:
  assumes enc: "EncodeRecordWithChecksum r = Inr bs"
    and ku: "unat (ksize r) \<le> length (key r)" and vu: "unat (vsize r) \<le> length (val r)"
  shows "bs = layout r"
    and "DecodeRecord bs =
           Inr \<lparr>flag = flag r, ksize = ksize r, vsize = vsize r,
                key = take (unat (ksize r)) (key r), val = take (unat (vsize r)) (val r),
                checksum = ChecksumIEEE (header (flag r) (ksize r) (vsize r)
                             @ take (unat (ksize r)) (key r) @ take (unat (vsize r)) (val r))\<rparr>"
    and "length bs = Size r"
proof -
  note b = Encode_Inr_bounds [OF enc]
  from Encode_layout [OF ku vu b] enc show bs: "bs = layout r" by simp
  have "DecodeRecord (header (flag r) (ksize r) (vsize r) @ take (unat (ksize r)) (key r)
          @ take (unat (vsize r)) (val r)
          @ PutUint32 (ChecksumIEEE (header (flag r) (ksize r) (vsize r)
              @ take (unat (ksize r)) (key r) @ take (unat (vsize r)) (val r)))
          @ replicate (length (key r) - unat (ksize r) + (length (val r) - unat (vsize r))) 0)
        = Inr \<lparr>flag = flag r, ksize = ksize r, vsize = vsize r,
                key = take (unat (ksize r)) (key r), val = take (unat (vsize r)) (val r),
                checksum = ChecksumIEEE (header (flag r) (ksize r) (vsize r)
                             @ take (unat (ksize r)) (key r) @ take (unat (vsize r)) (val r))\<rparr>"
    using ku vu b by (intro Decode_frame) simp_all
  then show "DecodeRecord bs = Inr \<lparr>flag = flag r, ksize = ksize r, vsize = vsize r,
                key = take (unat (ksize r)) (key r), val = take (unat (vsize r)) (val r),
                checksum = ChecksumIEEE (header (flag r) (ksize r) (vsize r)
                             @ take (unat (ksize r)) (key r) @ take (unat (vsize r)) (val r))\<rparr>"
    by (simp add: bs layout_def Let_def)
  show "length bs = Size r"
    using ku vu by (simp add: bs layout_def Let_def Size_def layout_vals)
qed

lemma New_fields [simp]:
  "flag (NewRecordWithoutChecksum f k v) = f"
  "ksize (NewRecordWithoutChecksum f k v) = of_nat (length k)"
  "vsize (NewRecordWithoutChecksum f k v) = of_nat (length v)"
  "key (NewRecordWithoutChecksum f k v) = k"
  "val (NewRecordWithoutChecksum f k v) = v"
  by (simp_all add: NewRecordWithoutChecksum_def)

lemma SetDeleted_fields [simp]:
  "ksize (SetDeleted r) = ksize r" "vsize (SetDeleted r) = vsize r"
  "key (SetDeleted r) = key r" "val (SetDeleted r) = val r"
  by (simp_all add: SetDeleted_def)

lemma unat_of_nat_le: "unat (of_nat n :: 'a :: len word) \<le> n"
  by (simp add: unat_of_nat)

lemma unat_ksize_New: "unat (of_nat n :: 16 word) = n mod 65536"
  by (simp add: unat_of_nat)

lemma unat_vsize_New: "unat (of_nat n :: 32 word) = n mod 4294967296"
  by (simp add: unat_of_nat)

lemma roundtrip_long_key:
  assumes "bnd (EncodeRecordWithChecksum (NewRecordWithoutChecksum f k v)) DecodeRecord = Inr r"
  shows "key r = take (length k mod 65536) k" and "val r = take (length v mod 4294967296) v"
proof -
  from assms obtain bs where enc: "EncodeRecordWithChecksum (NewRecordWithoutChecksum f k v) = Inr bs"
    and dec: "DecodeRecord bs = Inr r" by (elim bnd_InrE)
  have ku: "unat (ksize (NewRecordWithoutChecksum f k v)) \<le> length (key (NewRecordWithoutChecksum f k v))"
    by (simp add: unat_of_nat_le)
  have vu: "unat (vsize (NewRecordWithoutChecksum f k v)) \<le> length (val (NewRecordWithoutChecksum f k v))"
    by (simp add: unat_of_nat_le)
  from Encode_Inr_layout(2) [OF enc ku vu] dec
  show "key r = take (length k mod 65536) k" and "val r = take (length v mod 4294967296) v"
    by (auto simp: unat_ksize_New unat_vsize_New)
qed

text \<open>
  Within the bounds the encoder handles (a key of at most 65528 bytes and a record of
  less than \<open>2 ^ 32\<close> bytes), encoding and decoding give back flag, key and value, the
  checksum is valid, and the encoding is \<open>7 + ksize + vsize + 4\<close> bytes long.
\<close>

lemma codec_roundtrip:
  assumes kb: "length k \<le> 65528" and tb: "7 + length k + length v + 4 < 2 ^ 32"
  shows "\<exists>bs r. EncodeRecordWithChecksum (NewRecordWithoutChecksum f k v) = Inr bs
           \<and> length bs = 7 + length k + length v + 4
           \<and> DecodeRecord bs = Inr r
           \<and> flag r = f \<and> ksize r = of_nat (length k) \<and> vsize r = of_nat (length v)
           \<and> key r = k \<and> val r = v \<and> \<not> Corrupted r"
proof -
  let ?r = "NewRecordWithoutChecksum f k v"
  have lk: "length k mod 65536 = length k" and lv: "length v mod 4294967296 = length v"
    using kb tb by simp_all
  have enc: "EncodeRecordWithChecksum ?r = Inr (layout ?r)"
    using kb tb by (intro Encode_layout) (simp_all add: unat_ksize_New unat_vsize_New lk lv)
  have ku: "unat (ksize ?r) \<le> length (key ?r)" and vu: "unat (vsize ?r) \<le> length (val ?r)"
    by (simp_all add: unat_of_nat_le)
  note dec = Encode_Inr_layout(2) [OF enc ku vu]
  note len = Encode_Inr_layout(3) [OF enc ku vu]
  show ?thesis
    apply (rule exI [of _ "layout ?r"])
    apply (rule exI [of _ "\<lparr>flag = f, ksize = of_nat (length k), vsize = of_nat (length v),
             key = k, val = v,
             checksum = ChecksumIEEE (header f (of_nat (length k)) (of_nat (length v)) @ k @ v)\<rparr>"])
    using enc dec len
    apply (simp add: unat_ksize_New unat_vsize_New lk lv Size_def layout_vals Corrupted_def
             generateChecksum_def header_def)
    done
qed

section \<open>Reading a record back\<close>

lemma file_ReadAt_mid:
  "length a = off \<Longrightarrow> length b = n \<Longrightarrow> file_ReadAt (a @ b @ c) n off = Inr b"
  by (simp add: file_ReadAt_def)

lemma unat_payload:
  "unat (ks :: 16 word) + unat (vs :: 32 word) < 2 ^ 32 \<Longrightarrow>
   unat ((ucast ks :: 32 word) + vs) = unat ks + unat vs"
  by (simp add: unat_word_ariths(1) [where 'a = 32])

lemma read_record_frame:
  assumes lk: "length k = unat ks" and lv: "length v = unat vs"
    and nw: "unat ks + unat vs < 2 ^ 32" and off: "offset = length pre"
  shows "read_record (pre @ header f ks vs @ k @ v @ PutUint32 c @ post) offset
         = Inr \<lparr>flag = f, ksize = ks, vsize = vs, key = k, val = v, checksum = c\<rparr>"
proof -
  let ?file = "pre @ header f ks vs @ k @ v @ PutUint32 c @ post"
  have r1: "file_ReadAt ?file 7 offset = Inr (header f ks vs)"
    using off by (intro file_ReadAt_mid) simp_all
  have r2: "file_ReadAt ?file (unat ks + unat vs) (offset + 7) = Inr (k @ v)"
    using file_ReadAt_mid [of "pre @ header f ks vs" "offset + 7" "k @ v" "unat ks + unat vs"
            "PutUint32 c @ post"] off lk lv by simp
  have r3: "file_ReadAt ?file 4 (offset + 7 + (unat ks + unat vs)) = Inr (PutUint32 c)"
    using file_ReadAt_mid [of "pre @ header f ks vs @ k @ v" "offset + 7 + (unat ks + unat vs)"
            "PutUint32 c" 4 post] off lk lv by simp
  have s1: "slice (k @ v) 0 (unat ks) = Inr k" using lk by (simp add: slice_def)
  have s2: "slice (k @ v) (unat ks) (unat ks + unat vs) = Inr v" using lk lv by (simp add: slice_def)
  have hp: "header f ks vs ! 0 = f" "take 2 (drop 1 (header f ks vs)) = PutUint16 ks"
    "take 4 (drop 3 (header f ks vs)) = PutUint32 vs"
    using header_parts [of f ks vs "[]"] by simp_all
  have two: "(3 :: nat) - 1 = 2" and four: "(7 :: nat) - 3 = 4" by simp_all
  have lkv: "length (k @ v) = unat ks + unat vs" using lk lv by simp
  show ?thesis
    unfolding read_record_def layout_vals r1 bnd_simps Let_def length_header two four hp
      Uint16_Put Uint32_Put unat_payload [OF nw] r2 lkv r3 s1 s2
    by (rule refl)
qed

text \<open>
  What \<open>Get\<close> does with an index entry: \<open>resolve\<close> picks the data file for the
  entry's id, \<open>raw_read\<close> is the read inside \<open>ReadEntireRecordAt\<close>, and
  \<open>read_entry\<close> is that read followed by \<open>DecodeRecord\<close>. An entry is \<open>stable\<close>
  when it lies in the written part of the active file or in an older file that is read
  through its mapping; \<open>holds_bytes s e bs\<close> says that in state \<open>s\<close> the read for the
  stable entry \<open>e\<close> returns the bytes \<open>bs\<close>.
\<close>

definition resolve :: "Disk \<times> MKV \<Rightarrow> nat \<Rightarrow> error + DataFile" where
  "resolve s i =
     (case s of (d, m) \<Rightarrow>
        if i = df_id (cur m) then Inr (cur m)
        else case map_of (dataFiles m) i of None \<Rightarrow> Inl Panic | Some df \<Rightarrow> Inr df)"

definition raw_read :: "Disk \<Rightarrow> DataFile \<Rightarrow> nat \<Rightarrow> nat \<Rightarrow> error + byte list" where
  "raw_read d df offset sz =
     (case df_reader df of
        Some dat \<Rightarrow> mmap_ReadAt dat sz offset
      | None \<Rightarrow> bnd (file_bytes d df) (\<lambda>c. file_ReadAt c sz offset))"

definition read_bytes :: "Disk \<times> MKV \<Rightarrow> Entry \<Rightarrow> error + byte list" where
  "read_bytes s e = bnd (resolve s (ID e)) (\<lambda>df. raw_read (fst s) df (Offset e) (ESize e))"

definition read_entry :: "Disk \<times> MKV \<Rightarrow> Entry \<Rightarrow> error + Record" where
  "read_entry s e = bnd (read_bytes s e) DecodeRecord"

definition stable :: "Disk \<times> MKV \<Rightarrow> Entry \<Rightarrow> bool" where
  "stable s e =
     (case s of (d, m) \<Rightarrow>
        if ID e = df_id (cur m)
        then df_reader (cur m) = None \<and> Offset e + ESize e \<le> df_end (cur m)
        else ID e < df_id (cur m) \<and>
             (case map_of (dataFiles m) (ID e) of None \<Rightarrow> False | Some df \<Rightarrow> df_reader df \<noteq> None))"

definition holds_bytes :: "Disk \<times> MKV \<Rightarrow> Entry \<Rightarrow> byte list \<Rightarrow> bool" where
  "holds_bytes s e bs = (read_bytes s e = Inr bs \<and> 0 < ESize e \<and> stable s e)"

lemma ReadEntireRecordAt_raw: "ReadEntireRecordAt d df off n = bnd (raw_read d df off n) DecodeRecord"
  by (simp add: ReadEntireRecordAt_def raw_read_def)

lemma bnd_assoc: "bnd (bnd m f) g = bnd m (\<lambda>x. bnd (f x) g)"
  by (cases m) simp_all

lemma Get_read_entry:
  "Get s k =
     (case map_of (index (snd s)) k of
        None \<Rightarrow> Inl ErrKeyNotFound
      | Some e \<Rightarrow> bnd (read_entry s e) (\<lambda>r. Inr (val r)))"
  by (cases s)
     (auto simp: Get_def read_entry_def read_bytes_def resolve_def ReadEntireRecordAt_raw bnd_assoc
           split: option.splits)

lemma file_WriteAt_keeps:
  assumes "off + n \<le> length c" and "off + n \<le> e"
  shows "file_ReadAt (file_WriteAt c bs e) n off = file_ReadAt c n off"
proof (cases "bs = []")
  case True
  then show ?thesis by (simp add: file_WriteAt_def)
next
  case False
  have "take n (drop off (take e c @ replicate (e - length c) 0 @ bs @ drop (e + length bs) c))
        = take n (drop off c)"
    using assms by (auto simp: drop_take)
  moreover have "off + n \<le> length (take e c @ replicate (e - length c) 0 @ bs @ drop (e + length bs) c)"
    using assms by simp
  ultimately show ?thesis using False assms by (simp add: file_WriteAt_def file_ReadAt_def)
qed

lemma file_WriteAt_reads_back:
  "bs \<noteq> [] \<Longrightarrow> file_ReadAt (file_WriteAt c bs e) (length bs) e = Inr bs"
  by (simp add: file_WriteAt_def file_ReadAt_def)

lemma file_to_mmap:
  assumes "file_ReadAt c n off = Inr bs" and "0 < n"
  shows "mmap_ReadAt c n off = Inr bs"
  using assms by (auto simp: file_ReadAt_def mmap_ReadAt_def split: if_splits)


lemma copy_into_length: "copy_into b lo hi src = Inr x \<Longrightarrow> length x = length b"
  by (auto simp: copy_into_def Let_def min_def split: if_splits)

lemma Encode_length:
  assumes "EncodeRecordWithChecksum r = Inr bs"
  shows "length bs = Size r"
proof -
  have "7 \<le> Size r" by (simp add: Size_def layout_vals)
  then obtain n where n: "Size r = 7 + n" using le_Suc_ex by blast
  from assms show ?thesis
    unfolding EncodeRecordWithChecksum_def layout_vals Let_def
    by (auto elim!: bnd_InrE dest!: copy_into_length simp: n PutUint16_def PutUint32_def)
qed

lemma AppendRecord_InrE:
  assumes "AppendRecord d df r = Inr (d', df', off, sz)"
  obtains bs c where "df_reader df = None" and "EncodeRecordWithChecksum r = Inr bs"
    and "map_of (data_files d) (df_id df) = Some c"
    and "d' = d\<lparr>data_files := AList.update (df_id df) (file_WriteAt c bs (df_end df)) (data_files d)\<rparr>"
    and "df' = df\<lparr>df_end := df_end df + length bs\<rparr>"
    and "off = df_end df" and "sz = length bs"
  using assms unfolding AppendRecord_def file_bytes_def
  by (auto elim!: bnd_InrE split: if_splits option.splits)

lemma Put_InrE:
  assumes "Put s k v = Inr s'"
  obtains d m d' c off sz where "mayCreateNewDataFile s = Inr (d, m)"
    and "AppendRecord d (cur m) (NewRecordWithoutChecksum NormalFlag k v) = Inr (d', c, off, sz)"
    and "s' = (d', m\<lparr>cur := c, meta := add_reusable m k,
                      index := AList.update k \<lparr>ID = df_id c, Offset = off, ESize = sz\<rparr> (index m)\<rparr>)"
  using assms unfolding Put_def Let_def
  by (auto elim!: bnd_InrE)

lemma Delete_InrE:
  assumes "Delete s k = Inr s'"
  obtains d m d' c off sz where "mayCreateNewDataFile s = Inr (d, m)"
    and "AppendRecord d (cur m) (SetDeleted (NewRecordWithoutChecksum NormalFlag k [])) = Inr (d', c, off, sz)"
    and "s' = (d', m\<lparr>cur := c, meta := add_reusable m k, index := AList.delete k (index m)\<rparr>)"
  using assms unfolding Delete_def
  by (auto elim!: bnd_InrE)


lemma NewDataFile_True:
  "NewDataFile d i True = Inr (d1, df) \<Longrightarrow>
   \<exists>c. map_of (data_files d) i = Some c \<and> d1 = d
       \<and> df = \<lparr>df_id = i, df_reader = Some c, df_end = length c\<rparr>"
  by (cases "map_of (data_files d) i") (simp_all add: NewDataFile_def)

lemma NewDataFile_False:
  "NewDataFile d i False = Inr (d1, df) \<Longrightarrow>
   \<exists>c. map_of (data_files d1) i = Some c
       \<and> df = \<lparr>df_id = i, df_reader = None, df_end = length c\<rparr>
       \<and> (d1 = d \<or> (map_of (data_files d) i = None \<and> c = []
             \<and> d1 = d\<lparr>data_files := AList.update i [] (data_files d)\<rparr>))"
  by (cases "map_of (data_files d) i") (auto simp: NewDataFile_def update_conv')

lemma mayCreate_InrE:
  assumes "mayCreateNewDataFile (d, m) = Inr (d', m')"
  obtains (same) "d' = d" and "m' = m"
  | (rolled) c n where "map_of (data_files d) (df_id (cur m)) = Some c"
      and "m' = m\<lparr>dataFiles := AList.update (df_id (cur m))
                      \<lparr>df_id = df_id (cur m), df_reader = Some c, df_end = length c\<rparr> (dataFiles m),
                    cur := \<lparr>df_id = df_id (cur m) + 1, df_reader = None, df_end = n\<rparr>\<rparr>"
proof (cases "int (df_end (cur m)) < DataFileMaxSize (config m)")
  case True
  with assms have "d' = d" "m' = m" by (simp_all add: mayCreateNewDataFile_def)
  then show ?thesis by (rule same)
next
  case False
  let ?i = "df_id (cur m)"
  from assms False obtain x where a: "NewDataFile d ?i True = Inr x"
    and b: "(case x of (d1, df) \<Rightarrow>
              let m1 = m\<lparr>dataFiles := AList.update ?i df (dataFiles m)\<rparr>;
                  d2 = createHintFile (d1, m1) ?i
              in bnd (NewDataFile d2 (?i + 1) False) (\<lambda>(d3, c). Inr (d3, m1\<lparr>cur := c\<rparr>)))
            = Inr (d', m')"
    unfolding mayCreateNewDataFile_def Let_def by (auto elim!: bnd_InrE)
  obtain d1 df where x: "x = (d1, df)" by (cases x)
  from NewDataFile_True [OF a [unfolded x]] obtain c where
    c: "map_of (data_files d) ?i = Some c" and df: "df = \<lparr>df_id = ?i, df_reader = Some c, df_end = length c\<rparr>"
    by blast
  define m1 where "m1 = m\<lparr>dataFiles := AList.update ?i df (dataFiles m)\<rparr>"
  from b [unfolded x] obtain y where
    e: "NewDataFile (createHintFile (d1, m1) ?i) (?i + 1) False = Inr y"
    and f: "(case y of (d3, c) \<Rightarrow> Inr (d3, m1\<lparr>cur := c\<rparr>)) = Inr (d', m')"
    unfolding m1_def Let_def by (auto elim!: bnd_InrE)
  obtain d3 c3 where y: "y = (d3, c3)" by (cases y)
  from NewDataFile_False [OF e [unfolded y]] obtain n where
    c3: "c3 = \<lparr>df_id = ?i + 1, df_reader = None, df_end = n\<rparr>" by blast
  from f y have "m' = m1\<lparr>cur := c3\<rparr>" by simp
  then have "m' = m\<lparr>dataFiles := AList.update ?i
                      \<lparr>df_id = ?i, df_reader = Some c, df_end = length c\<rparr> (dataFiles m),
                    cur := \<lparr>df_id = ?i + 1, df_reader = None, df_end = n\<rparr>\<rparr>"
    by (simp add: m1_def df c3)
  with c show ?thesis by (rule rolled)
qed

lemma holds_bytes_rollover:
  assumes P: "holds_bytes s e bs" and R: "mayCreateNewDataFile s = Inr s'"
  shows "holds_bytes s' e bs"
proof -
  obtain d m where s: "s = (d, m)" by (cases s)
  obtain d' m' where s': "s' = (d', m')" by (cases s')
  from R [unfolded s s'] show ?thesis
  proof (cases rule: mayCreate_InrE)
    case same
    with P s s' show ?thesis by simp
  next
    case (rolled c n)
    from P have rd: "read_bytes (d, m) e = Inr bs" and pos: "0 < ESize e" and st: "stable (d, m) e"
      by (simp_all add: holds_bytes_def s)
    show ?thesis
    proof (cases "ID e = df_id (cur m)")
      case True
      with rd rolled(1) st have "file_ReadAt c (ESize e) (Offset e) = Inr bs"
        by (simp add: read_bytes_def resolve_def raw_read_def stable_def file_bytes_def)
      from file_to_mmap [OF this pos] True rolled(2) pos
      show ?thesis
        by (simp add: holds_bytes_def s' read_bytes_def resolve_def raw_read_def stable_def
              update_conv')
    next
      case False
      with st obtain df where lt: "ID e < df_id (cur m)"
        and df: "map_of (dataFiles m) (ID e) = Some df" and rdr: "df_reader df \<noteq> None"
        by (auto simp: stable_def split: option.splits)
      from rd False df rdr obtain dat where dat: "df_reader df = Some dat"
        and "mmap_ReadAt dat (ESize e) (Offset e) = Inr bs"
        by (auto simp: read_bytes_def resolve_def raw_read_def split: option.splits)
      with False lt df rolled(2) pos show ?thesis
        by (simp add: holds_bytes_def s' read_bytes_def resolve_def raw_read_def stable_def
              update_conv')
    qed
  qed
qed

lemma holds_bytes_append:
  assumes P: "holds_bytes (d, m) e bs"
    and A: "AppendRecord d (cur m) r = Inr (d', c', off, sz)"
  shows "holds_bytes (d', m\<lparr>cur := c', meta := mt, index := ix\<rparr>) e bs"
proof -
  from A obtain bs' c where rn: "df_reader (cur m) = None"
    and c: "map_of (data_files d) (df_id (cur m)) = Some c"
    and d': "d' = d\<lparr>data_files := AList.update (df_id (cur m))
                        (file_WriteAt c bs' (df_end (cur m))) (data_files d)\<rparr>"
    and c': "c' = (cur m)\<lparr>df_end := df_end (cur m) + length bs'\<rparr>"
    by (elim AppendRecord_InrE)
  from P have rd: "read_bytes (d, m) e = Inr bs" and pos: "0 < ESize e" and st: "stable (d, m) e"
    by (simp_all add: holds_bytes_def)
  show ?thesis
  proof (cases "ID e = df_id (cur m)")
    case True
    with rd c rn have r0: "file_ReadAt c (ESize e) (Offset e) = Inr bs"
      by (simp add: read_bytes_def resolve_def raw_read_def file_bytes_def)
    with pos have inb: "Offset e + ESize e \<le> length c"
      by (auto simp: file_ReadAt_def split: if_splits)
    from st True have ine: "Offset e + ESize e \<le> df_end (cur m)" by (simp add: stable_def)
    from file_WriteAt_keeps [OF inb ine, of bs'] r0
    have "file_ReadAt (file_WriteAt c bs' (df_end (cur m))) (ESize e) (Offset e) = Inr bs" by simp
    with True rn ine pos show ?thesis
      by (simp add: holds_bytes_def read_bytes_def resolve_def raw_read_def stable_def
            file_bytes_def d' c' update_conv')
  next
    case False
    with st obtain df where lt: "ID e < df_id (cur m)"
      and df: "map_of (dataFiles m) (ID e) = Some df" and rdr: "df_reader df \<noteq> None"
      by (auto simp: stable_def split: option.splits)
    from rd False df rdr obtain dat where dat: "df_reader df = Some dat"
      and "mmap_ReadAt dat (ESize e) (Offset e) = Inr bs"
      by (auto simp: read_bytes_def resolve_def raw_read_def split: option.splits)
    with False lt df pos show ?thesis
      by (simp add: holds_bytes_def read_bytes_def resolve_def raw_read_def stable_def c')
  qed
qed

lemma new_entry_holds:
  assumes A: "AppendRecord d (cur m) r = Inr (d', c', off, sz)"
  shows "\<exists>bs. EncodeRecordWithChecksum r = Inr bs \<and>
          holds_bytes (d', m\<lparr>cur := c', meta := mt, index := ix\<rparr>)
            \<lparr>ID = df_id c', Offset = off, ESize = sz\<rparr> bs"
proof -
  from A obtain bs c where rn: "df_reader (cur m) = None"
    and enc: "EncodeRecordWithChecksum r = Inr bs"
    and c: "map_of (data_files d) (df_id (cur m)) = Some c"
    and d': "d' = d\<lparr>data_files := AList.update (df_id (cur m))
                        (file_WriteAt c bs (df_end (cur m))) (data_files d)\<rparr>"
    and c': "c' = (cur m)\<lparr>df_end := df_end (cur m) + length bs\<rparr>"
    and off: "off = df_end (cur m)" and sz: "sz = length bs"
    by (elim AppendRecord_InrE)
  have "11 \<le> length bs" using Encode_length [OF enc] by (simp add: Size_def layout_vals)
  then have ne: "bs \<noteq> []" and pos: "0 < length bs" by auto
  from file_WriteAt_reads_back [OF ne, of c "df_end (cur m)"] rn pos
  have "holds_bytes (d', m\<lparr>cur := c', meta := mt, index := ix\<rparr>)
            \<lparr>ID = df_id c', Offset = off, ESize = sz\<rparr> bs"
    by (simp add: holds_bytes_def read_bytes_def resolve_def raw_read_def stable_def
          file_bytes_def d' c' off sz update_conv')
  with enc show ?thesis by blast
qed

section \<open>Sequences of operations\<close>

text \<open>
  A session is a list of operations run one after the other from a state, each of which
  returns without error. \<open>writes_key\<close> holds of a put or delete of the key, \<open>puts_key\<close>
  of a put of the key. \<open>tracked s k bs\<close> says that the index maps \<open>k\<close> to a stable entry
  whose read returns \<open>bs\<close>. \<open>fresh cfg\<close> is the engine that \<open>Open\<close> returns on an empty
  directory, and \<open>wf_cur\<close> says that the active file is writable and exists.
\<close>

datatype op = OpPut "byte list" "byte list" | OpDelete "byte list" | OpGet "byte list"

fun apply_op :: "Disk \<times> MKV \<Rightarrow> op \<Rightarrow> error + (Disk \<times> MKV)" where
  "apply_op s (OpPut k v) = Put s k v"
| "apply_op s (OpDelete k) = Delete s k"
| "apply_op s (OpGet k) = Inr s"

fun run :: "Disk \<times> MKV \<Rightarrow> op list \<Rightarrow> error + (Disk \<times> MKV)" where
  "run s [] = Inr s"
| "run s (x # xs) = bnd (apply_op s x) (\<lambda>s'. run s' xs)"

fun writes_key :: "op \<Rightarrow> byte list \<Rightarrow> bool" where
  "writes_key (OpPut k v) k' = (k = k')"
| "writes_key (OpDelete k) k' = (k = k')"
| "writes_key (OpGet k) k' = False"

fun puts_key :: "op \<Rightarrow> byte list \<Rightarrow> bool" where
  "puts_key (OpPut k v) k' = (k = k')"
| "puts_key (OpDelete k) k' = False"
| "puts_key (OpGet k) k' = False"

definition tracked :: "Disk \<times> MKV \<Rightarrow> byte list \<Rightarrow> byte list \<Rightarrow> bool" where
  "tracked s k bs = (case map_of (index (snd s)) k of None \<Rightarrow> False | Some e \<Rightarrow> holds_bytes s e bs)"

definition wf_cur :: "Disk \<times> MKV \<Rightarrow> bool" where
  "wf_cur s = (case s of (d, m) \<Rightarrow>
      df_reader (cur m) = None \<and> (case map_of (data_files d) (df_id (cur m)) of None \<Rightarrow> False | Some c \<Rightarrow> True))"

definition fresh :: "Config \<Rightarrow> Disk \<times> MKV" where
  "fresh cfg =
     (\<lparr>locked = True, meta_file = Absent, index_file = None, data_files = [(0, [])], hint_files = []\<rparr>,
      \<lparr>config = cfg, meta = \<lparr>IndexUpToDate = False, ReusableSpace = 0\<rparr>,
       cur = \<lparr>df_id = 0, df_reader = None, df_end = 0\<rparr>, dataFiles = [], index = [],
       isMerging = False\<rparr>)"

lemma mayCreate_index:
  assumes "mayCreateNewDataFile s = Inr s'"
  shows "index (snd s') = index (snd s)" and "meta (snd s') = meta (snd s)"
proof -
  obtain d m where s: "s = (d, m)" by (cases s)
  obtain d' m' where s': "s' = (d', m')" by (cases s')
  from assms [unfolded s s'] show "index (snd s') = index (snd s)" and "meta (snd s') = meta (snd s)"
    by (cases rule: mayCreate_InrE; simp add: s s')+
qed

lemma tracked_Put:
  assumes T: "tracked s k bs" and P: "Put s k' v' = Inr s'" and ne: "k' \<noteq> k"
  shows "tracked s' k bs"
proof -
  from P obtain d m d' c off sz where R: "mayCreateNewDataFile s = Inr (d, m)"
    and A: "AppendRecord d (cur m) (NewRecordWithoutChecksum NormalFlag k' v') = Inr (d', c, off, sz)"
    and s': "s' = (d', m\<lparr>cur := c, meta := add_reusable m k',
                      index := AList.update k' \<lparr>ID = df_id c, Offset = off, ESize = sz\<rparr> (index m)\<rparr>)"
    by (elim Put_InrE)
  from T obtain e where e: "map_of (index (snd s)) k = Some e" and h: "holds_bytes s e bs"
    by (auto simp: tracked_def split: option.splits)
  from mayCreate_index(1) [OF R] e have e1: "map_of (index m) k = Some e" by simp
  from holds_bytes_append [OF holds_bytes_rollover [OF h R] A] e1 ne
  show ?thesis by (simp add: tracked_def s' update_conv')
qed

lemma tracked_Delete:
  assumes T: "tracked s k bs" and P: "Delete s k' = Inr s'" and ne: "k' \<noteq> k"
  shows "tracked s' k bs"
proof -
  from P obtain d m d' c off sz where R: "mayCreateNewDataFile s = Inr (d, m)"
    and A: "AppendRecord d (cur m) (SetDeleted (NewRecordWithoutChecksum NormalFlag k' [])) = Inr (d', c, off, sz)"
    and s': "s' = (d', m\<lparr>cur := c, meta := add_reusable m k', index := AList.delete k' (index m)\<rparr>)"
    by (elim Delete_InrE)
  from T obtain e where e: "map_of (index (snd s)) k = Some e" and h: "holds_bytes s e bs"
    by (auto simp: tracked_def split: option.splits)
  from mayCreate_index(1) [OF R] e have e1: "map_of (index m) k = Some e" by simp
  from holds_bytes_append [OF holds_bytes_rollover [OF h R] A] e1 ne
  show ?thesis by (simp add: tracked_def s' delete_conv')
qed

lemma tracked_run:
  assumes "tracked s k bs" and "run s ops = Inr s'" and "\<forall>x \<in> set ops. \<not> writes_key x k"
  shows "tracked s' k bs"
  using assms
proof (induction ops arbitrary: s)
  case Nil
  then show ?case by simp
next
  case (Cons x xs)
  from Cons.prems(2) obtain s1 where a: "apply_op s x = Inr s1" and r: "run s1 xs = Inr s'"
    by (auto elim!: bnd_InrE)
  from Cons.prems(3) have nx: "\<not> writes_key x k" and nxs: "\<forall>y \<in> set xs. \<not> writes_key y k" by simp_all
  have "tracked s1 k bs"
  proof (cases x)
    case (OpPut k' v')
    with a nx Cons.prems(1) show ?thesis by (auto intro: tracked_Put)
  next
    case (OpDelete k')
    with a nx Cons.prems(1) show ?thesis by (auto intro: tracked_Delete)
  next
    case (OpGet k')
    with a Cons.prems(1) show ?thesis by simp
  qed
  from Cons.IH [OF this r nxs] show ?case .
qed

lemma tracked_after_Put:
  assumes P: "Put s k v = Inr s'"
  shows "\<exists>bs. EncodeRecordWithChecksum (NewRecordWithoutChecksum NormalFlag k v) = Inr bs \<and> tracked s' k bs"
proof -
  from P obtain d m d' c off sz where
    A: "AppendRecord d (cur m) (NewRecordWithoutChecksum NormalFlag k v) = Inr (d', c, off, sz)"
    and s': "s' = (d', m\<lparr>cur := c, meta := add_reusable m k,
                      index := AList.update k \<lparr>ID = df_id c, Offset = off, ESize = sz\<rparr> (index m)\<rparr>)"
    by (elim Put_InrE)
  from new_entry_holds [OF A] show ?thesis
    by (auto simp: tracked_def s' update_conv')
qed

lemma tracked_Get:
  assumes T: "tracked s k bs"
  shows "Get s k = bnd (DecodeRecord bs) (\<lambda>r. Inr (val r))"
  using T by (auto simp: tracked_def Get_read_entry read_entry_def holds_bytes_def split: option.splits)

lemma Open_empty_dir: "Open cfg empty_dir = Inr (fresh cfg)"
  by (simp add: Open_def empty_dir_def LoadMeta_def LoadDataFiles_def NewDataFile_def fresh_def)

lemma wf_cur_fresh: "wf_cur (fresh cfg)"
  by (simp add: wf_cur_def fresh_def)

lemma mayCreate_progress:
  assumes "wf_cur s"
  shows "\<exists>s'. mayCreateNewDataFile s = Inr s' \<and> wf_cur s'"
proof -
  obtain d m where s: "s = (d, m)" by (cases s)
  from assms obtain c where rn: "df_reader (cur m) = None"
    and c: "map_of (data_files d) (df_id (cur m)) = Some c"
    by (auto simp: wf_cur_def s split: option.splits)
  show ?thesis
  proof (cases "int (df_end (cur m)) < DataFileMaxSize (config m)")
    case True
    with assms show ?thesis by (simp add: mayCreateNewDataFile_def s)
  next
    case False
    let ?i = "df_id (cur m)"
    let ?df = "\<lparr>df_id = ?i, df_reader = Some c, df_end = length c\<rparr>"
    let ?m1 = "m\<lparr>dataFiles := AList.update ?i ?df (dataFiles m)\<rparr>"
    let ?d2 = "createHintFile (d, ?m1) ?i"
    have a: "NewDataFile d ?i True = Inr (d, ?df)" using c by (simp add: NewDataFile_def)
    have d2: "data_files ?d2 = data_files d" by (simp add: createHintFile_def SaveHint_def)
    obtain d3 c3 where b: "NewDataFile ?d2 (?i + 1) False = Inr (d3, c3)"
      and w: "df_reader c3 = None" "df_id c3 = ?i + 1" "map_of (data_files d3) (?i + 1) \<noteq> None"
      by (cases "map_of (data_files ?d2) (?i + 1)") (auto simp: NewDataFile_def update_conv')
    have "mayCreateNewDataFile s = Inr (d3, ?m1\<lparr>cur := c3\<rparr>)"
      using False a b by (simp add: mayCreateNewDataFile_def s Let_def)
    moreover have "wf_cur (d3, ?m1\<lparr>cur := c3\<rparr>)"
      using w by (auto simp: wf_cur_def split: option.splits)
    ultimately show ?thesis by blast
  qed
qed

lemma AppendRecord_progress:
  assumes "wf_cur (d, m)" and "EncodeRecordWithChecksum r = Inr bs"
  shows "\<exists>d' c off sz. AppendRecord d (cur m) r = Inr (d', c, off, sz)
           \<and> (\<forall>mt ix. wf_cur (d', m\<lparr>cur := c, meta := mt, index := ix\<rparr>))"
  using assms
  by (auto simp: wf_cur_def AppendRecord_def file_bytes_def update_conv' split: option.splits)

lemma Encode_New_progress:
  assumes "length k mod 65536 \<le> 65528" and "7 + length k mod 65536 + length v mod 4294967296 + 4 < 2 ^ 32"
  shows "EncodeRecordWithChecksum (NewRecordWithoutChecksum f k v) = Inr (layout (NewRecordWithoutChecksum f k v))"
  using assms by (intro Encode_layout) (simp_all add: unat_ksize_New unat_vsize_New)

lemma Put_progress:
  assumes w: "wf_cur s" and kb: "length k mod 65536 \<le> 65528"
    and tb: "7 + length k mod 65536 + length v mod 4294967296 + 4 < 2 ^ 32"
  shows "\<exists>s'. Put s k v = Inr s' \<and> wf_cur s'"
proof -
  from mayCreate_progress [OF w] obtain d m where
    R: "mayCreateNewDataFile s = Inr (d, m)" and w1: "wf_cur (d, m)" by (metis surj_pair)
  from AppendRecord_progress [OF w1 Encode_New_progress [OF kb tb]] obtain d' c off sz where
    A: "AppendRecord d (cur m) (NewRecordWithoutChecksum NormalFlag k v) = Inr (d', c, off, sz)"
    and W: "\<And>mt ix. wf_cur (d', m\<lparr>cur := c, meta := mt, index := ix\<rparr>)" by blast
  have "Put s k v = Inr (d', m\<lparr>cur := c, meta := add_reusable m k,
          index := AList.update k \<lparr>ID = df_id c, Offset = off, ESize = sz\<rparr> (index m)\<rparr>)"
    using R A by (simp add: Put_def Let_def)
  with W show ?thesis by blast
qed

lemma Delete_progress:
  assumes w: "wf_cur s" and kb: "length k mod 65536 \<le> 65528"
  shows "\<exists>s'. Delete s k = Inr s' \<and> wf_cur s'"
proof -
  let ?r = "SetDeleted (NewRecordWithoutChecksum NormalFlag k [])"
  from mayCreate_progress [OF w] obtain d m where
    R: "mayCreateNewDataFile s = Inr (d, m)" and w1: "wf_cur (d, m)" by (metis surj_pair)
  have "EncodeRecordWithChecksum ?r = Inr (layout ?r)"
    using kb by (intro Encode_layout) (simp_all add: unat_ksize_New)
  from AppendRecord_progress [OF w1 this] obtain d' c off sz where
    A: "AppendRecord d (cur m) ?r = Inr (d', c, off, sz)"
    and W: "\<And>mt ix. wf_cur (d', m\<lparr>cur := c, meta := mt, index := ix\<rparr>)" by blast
  have "Delete s k = Inr (d', m\<lparr>cur := c, meta := add_reusable m k,
          index := AList.delete k (index m)\<rparr>)"
    using R A by (simp add: Delete_def)
  with W show ?thesis by blast
qed

lemma absent_run:
  assumes "map_of (index (snd s)) k = None" and "run s ops = Inr s'"
    and "\<forall>x \<in> set ops. \<not> puts_key x k"
  shows "map_of (index (snd s')) k = None"
  using assms
proof (induction ops arbitrary: s)
  case Nil
  then show ?case by simp
next
  case (Cons x xs)
  from Cons.prems(2) obtain s1 where a: "apply_op s x = Inr s1" and r: "run s1 xs = Inr s'"
    by (auto elim!: bnd_InrE)
  from Cons.prems(3) have nx: "\<not> puts_key x k" and nxs: "\<forall>y \<in> set xs. \<not> puts_key y k" by simp_all
  have "map_of (index (snd s1)) k = None"
  proof (cases x)
    case (OpPut k' v')
    with a have "Put s k' v' = Inr s1" by simp
    then show ?thesis
      using nx OpPut Cons.prems(1)
      by (elim Put_InrE) (auto simp: update_conv' dest: mayCreate_index(1))
  next
    case (OpDelete k')
    with a have "Delete s k' = Inr s1" by simp
    then show ?thesis
      using Cons.prems(1)
      by (elim Delete_InrE) (auto simp: delete_conv' dest: mayCreate_index(1))
  next
    case (OpGet k')
    with a Cons.prems(1) show ?thesis by simp
  qed
  from Cons.IH [OF this r nxs] show ?case .
qed

lemma Delete_removes:
  assumes D: "Delete s k = Inr s1" and R: "run s1 ops = Inr s2"
    and O: "\<forall>x \<in> set ops. \<not> puts_key x k"
  shows "Get s2 k = Inl ErrKeyNotFound"
proof -
  from D have "map_of (index (snd s1)) k = None"
    by (elim Delete_InrE) (simp add: delete_conv')
  from absent_run [OF this R O] show ?thesis
    by (simp add: Get_read_entry)
qed

lemma add_reusable_absent: "map_of (index m) k = None \<Longrightarrow> add_reusable m k = meta m"
  by (simp add: add_reusable_def)

lemma delete_absent: "map_of al k = None \<Longrightarrow> AList.delete k al = al"
  by (induction al) (auto simp: AList.delete_eq split: if_splits)

text \<open>A delete of an absent key rolls over if needed and appends the tombstone; index and counter stay.\<close>

lemma Delete_absent:
  assumes "map_of (index (snd s)) k = None"
  shows "Delete s k =
     bnd (mayCreateNewDataFile s) (\<lambda>(d, m).
     bnd (AppendRecord d (cur m) (SetDeleted (NewRecordWithoutChecksum NormalFlag k []))) (\<lambda>(d', c, offset, sz).
     Inr (d', m\<lparr>cur := c\<rparr>)))"
proof (cases "mayCreateNewDataFile s")
  case (Inl e)
  then show ?thesis by (simp add: Delete_def)
next
  case (Inr s')
  obtain d m where s': "s' = (d, m)" by (cases s')
  from mayCreate_index [OF Inr] assms have "map_of (index m) k = None" "True"
    by (simp_all add: s')
  then have "add_reusable m k = meta m" "AList.delete k (index m) = index m"
    by (simp_all add: add_reusable_absent delete_absent)
  then show ?thesis
    by (cases "AppendRecord d (cur m) (SetDeleted (NewRecordWithoutChecksum NormalFlag k []))")
       (auto simp: Delete_def Inr s')
qed

section \<open>Claim C2: the codec round trip\<close>

text \<open>
  Claim C2 states that for every flag, every key of at most 65535 bytes and every value of
  at most \<open>2 ^ 32 - 1\<close> bytes, decoding the encoded record returns the record, with a valid
  checksum, and that the encoding is \<open>7 + ksize + vsize + 4\<close> bytes long. Lemma
  \<open>codec_roundtrip\<close> proves this for keys of at most 65528 bytes. For a key of 65529
  bytes, which the claim covers, \<open>valueStart = keyBegin + ksize\<close> wraps to 0 in \<open>uint16\<close>
  and the slice expression \<open>bytes[keyBegin:valueStart]\<close> panics: the encoder returns
  nothing. \<open>ReadRecordAt\<close> widens \<open>ksize\<close> to \<open>uint32\<close> before it adds.
\<close>

theorem C2_encode_panics_on_long_key:
  "length (replicate 65529 (0 :: byte)) \<le> 65535 \<and>
   EncodeRecordWithChecksum (NewRecordWithoutChecksum NormalFlag (replicate 65529 0) []) = Inl Panic"
  by (simp add: EncodeRecordWithChecksum_def NewRecordWithoutChecksum_def layout_vals Let_def
        copy_into_def)

section \<open>Claim C10: keys longer than 65535 bytes\<close>

text \<open>
  For a key of length \<open>L > 65535\<close> the constructor stores \<open>L mod 2 ^ 16\<close> in \<open>ksize\<close>.
  When \<open>L mod 2 ^ 16 \<le> 65528\<close> and the record stays below \<open>2 ^ 32\<close> bytes, encoding
  followed by decoding yields the value and the first \<open>L mod 2 ^ 16\<close> bytes of the key;
  and whenever encoding followed by decoding yields a record at all, its key is that
  strict prefix, never the original key.
\<close>

lemma long_key_truncated:
  assumes long: "65535 < length k"
  shows "ksize (NewRecordWithoutChecksum f k v) = of_nat (length k mod 65536) \<and>
         (length k mod 65536 \<le> 65528 \<and> 7 + length k mod 65536 + length v + 4 < 2 ^ 32 \<longrightarrow>
            (\<exists>r. bnd (EncodeRecordWithChecksum (NewRecordWithoutChecksum f k v)) DecodeRecord = Inr r
                 \<and> key r = take (length k mod 65536) k \<and> val r = v)) \<and>
         (\<forall>r. bnd (EncodeRecordWithChecksum (NewRecordWithoutChecksum f k v)) DecodeRecord = Inr r
              \<longrightarrow> key r = take (length k mod 65536) k \<and> length (key r) < length k \<and> key r \<noteq> k)"
proof (intro conjI impI allI)
  have "(of_nat (length k mod 65536) :: 16 word) = of_nat (unat (of_nat (length k) :: 16 word))"
    by (simp only: unat_ksize_New)
  then show "ksize (NewRecordWithoutChecksum f k v) = of_nat (length k mod 65536)" by simp
next
  assume b: "length k mod 65536 \<le> 65528 \<and> 7 + length k mod 65536 + length v + 4 < 2 ^ 32"
  let ?r = "NewRecordWithoutChecksum f k v"
  have lv: "length v mod 4294967296 = length v" using b by simp
  have "EncodeRecordWithChecksum ?r = Inr (layout ?r)"
    using b by (intro Encode_layout) (simp_all add: unat_ksize_New unat_vsize_New lv)
  from Encode_Inr_layout(2) [OF this]
  have "DecodeRecord (layout ?r) = Inr \<lparr>flag = f, ksize = of_nat (length k), vsize = of_nat (length v),
                key = take (length k mod 65536) k, val = v,
                checksum = ChecksumIEEE (header f (of_nat (length k)) (of_nat (length v))
                             @ take (length k mod 65536) k @ v)\<rparr>"
    by (simp add: unat_ksize_New unat_vsize_New lv)
  with \<open>EncodeRecordWithChecksum ?r = Inr (layout ?r)\<close>
  show "\<exists>r. bnd (EncodeRecordWithChecksum ?r) DecodeRecord = Inr r
                 \<and> key r = take (length k mod 65536) k \<and> val r = v"
    by simp
next
  fix r
  assume a: "bnd (EncodeRecordWithChecksum (NewRecordWithoutChecksum f k v)) DecodeRecord = Inr r"
  from roundtrip_long_key(1) [OF a] show kr: "key r = take (length k mod 65536) k" .
  have "length k mod 65536 < 65536" by simp
  with long show "length (key r) < length k" by (simp add: kr)
  then show "key r \<noteq> k" by auto
qed

lemma long_key_truncated_example:
  "65535 < length (replicate 65536 (0 :: byte) @ [1, 2, 3]) \<and>
   ksize (NewRecordWithoutChecksum NormalFlag (replicate 65536 0 @ [1, 2, 3]) [5]) = 3 \<and>
   (\<exists>r. bnd (EncodeRecordWithChecksum
                (NewRecordWithoutChecksum NormalFlag (replicate 65536 0 @ [1, 2, 3]) [5]))
           DecodeRecord = Inr r \<and> key r = replicate 3 0 \<and> val r = [5])"
  using long_key_truncated [of "replicate 65536 0 @ [1, 2, 3]" NormalFlag "[5]"]
  by simp

text \<open>
  Claim C10 states that for any key longer than 65535 bytes the constructor stores the key
  length modulo \<open>2 ^ 16\<close> in \<open>ksize\<close>, that encoding followed by decoding yields a
  record whose key is a strict truncation of the original, and that the round trip holds
  only for keys of at most 65535 bytes. For a key of 131065 bytes
  (\<open>131065 mod 2 ^ 16 = 65529\<close>) the encoder does not yield a truncated record: as in
  claim C2, \<open>valueStart = keyBegin + ksize\<close> wraps to 0 in \<open>uint16\<close>, the slice
  expression \<open>bytes[keyBegin:valueStart]\<close> panics, and nothing is decoded.
\<close>

theorem C10_long_key_counterexample:
  "65535 < length (replicate 131065 (0 :: byte)) \<and>
   ksize (NewRecordWithoutChecksum NormalFlag (replicate 131065 (0 :: byte)) []) = 65529 \<and>
   bnd (EncodeRecordWithChecksum (NewRecordWithoutChecksum NormalFlag (replicate 131065 0) []))
     DecodeRecord = Inl Panic"
  by (simp add: EncodeRecordWithChecksum_def NewRecordWithoutChecksum_def layout_vals Let_def
        copy_into_def)

section \<open>Claim C1: a put is read back\<close>

text \<open>
  Within a session of puts and deletes of other keys, with the rollovers they cause, and
  of gets, a value that was put is read back: for a key of at most 65535 bytes and a value
  of at most \<open>2 ^ 32 - 1\<close> bytes, after \<open>Put(k, v)\<close> succeeds from any state, \<open>Get(k)\<close>
  returns \<open>v\<close>.
\<close>

lemma put_then_get_in_session:
  assumes kb: "length k \<le> 65535" and vb: "length v \<le> 2 ^ 32 - 1"
    and P: "Put s k v = Inr s1"
    and R: "run s1 ops = Inr s2"
    and O: "\<forall>x \<in> set ops. \<not> writes_key x k"
  shows "Get s2 k = Inr v"
proof -
  let ?r = "NewRecordWithoutChecksum NormalFlag k v"
  from tracked_after_Put [OF P] obtain bs where
    enc: "EncodeRecordWithChecksum ?r = Inr bs" and T: "tracked s1 k bs" by blast
  have ku: "unat (ksize ?r) \<le> length (key ?r)" and vu: "unat (vsize ?r) \<le> length (val ?r)"
    by (simp_all add: unat_of_nat_le)
  have lv: "length v mod 4294967296 = length v" using vb by simp
  from Encode_Inr_layout(2) [OF enc ku vu] obtain r where
    dec: "DecodeRecord bs = Inr r" and "val r = take (unat (vsize ?r)) v" by simp
  then have "val r = v" by (simp add: unat_vsize_New lv)
  with tracked_Get [OF tracked_run [OF T R O]] dec show ?thesis by simp
qed

lemma put_then_get_in_session_example:
  "\<exists>s1 s2. Open DefaultConfig empty_dir = Inr (fresh DefaultConfig)
      \<and> Put (fresh DefaultConfig) [1, 2] [3, 4, 5] = Inr s1
      \<and> run s1 [OpPut [7] [8], OpDelete [7], OpGet [1, 2]] = Inr s2
      \<and> Get s2 [1, 2] = Inr [3, 4, 5]"
proof -
  obtain s1 where p1: "Put (fresh DefaultConfig) [1, 2] [3, 4, 5] = Inr s1" and w1: "wf_cur s1"
    using Put_progress [OF wf_cur_fresh, of "[1, 2]" "[3, 4, 5]" DefaultConfig] by auto
  obtain sa where p2: "Put s1 [7] [8] = Inr sa" and w2: "wf_cur sa"
    using Put_progress [OF w1, of "[7]" "[8]"] by auto
  obtain sb where p3: "Delete sa [7] = Inr sb"
    using Delete_progress [OF w2, of "[7]"] by auto
  have r: "run s1 [OpPut [7] [8], OpDelete [7], OpGet [1, 2]] = Inr sb"
    by (simp add: p2 p3)
  have o: "\<forall>x \<in> set [OpPut [7] [8], OpDelete [7], OpGet [1, 2]]. \<not> writes_key x [1, 2 :: byte]"
    by simp
  have "Get sb [1, 2] = Inr [3, 4, 5]"
    using put_then_get_in_session [OF _ _ p1 r o] by simp
  with p1 r Open_empty_dir show ?thesis by blast
qed

text \<open>
  A put that lands while a merge is between its two locked parts: the engine on an empty
  directory starts a merge and reaches the release of the mutex in state \<open>at_unlock\<close>;
  \<open>Put\<close> of key \<open>[1]\<close> and value \<open>[2]\<close> succeeds there and gives \<open>after_put\<close>; the
  merge then finishes and gives \<open>after_merge\<close>.
\<close>

definition rec12 :: Record where
  "rec12 = NewRecordWithoutChecksum NormalFlag [1] [2]"

lemma layout_rec12: "length (layout rec12) = 13" "layout rec12 \<noteq> []"
  by (auto simp: rec12_def layout_def Let_def header_def)

lemma Encode_rec12: "EncodeRecordWithChecksum rec12 = Inr (layout rec12)"
  unfolding rec12_def by (rule Encode_New_progress) simp_all

definition at_unlock :: "Disk \<times> MKV" where
  "at_unlock =
     (\<lparr>locked = True, meta_file = Absent, index_file = None, data_files = [(0, []), (1, [])],
       hint_files = []\<rparr>,
      \<lparr>config = DefaultConfig, meta = \<lparr>IndexUpToDate = False, ReusableSpace = 0\<rparr>,
       cur = \<lparr>df_id = 1, df_reader = None, df_end = 0\<rparr>,
       dataFiles = [(0, \<lparr>df_id = 0, df_reader = Some [], df_end = 0\<rparr>)], index = [],
       isMerging = True\<rparr>)"

definition after_put :: "Disk \<times> MKV" where
  "after_put =
     (\<lparr>locked = True, meta_file = Absent, index_file = None,
       data_files = [(0, []), (1, layout rec12)], hint_files = []\<rparr>,
      \<lparr>config = DefaultConfig, meta = \<lparr>IndexUpToDate = False, ReusableSpace = 0\<rparr>,
       cur = \<lparr>df_id = 1, df_reader = None, df_end = 13\<rparr>,
       dataFiles = [(0, \<lparr>df_id = 0, df_reader = Some [], df_end = 0\<rparr>)],
       index = [([1], \<lparr>ID = 1, Offset = 0, ESize = 13\<rparr>)],
       isMerging = True\<rparr>)"

definition after_merge :: "Disk \<times> MKV" where
  "after_merge =
     (\<lparr>locked = True, meta_file = Holds \<lparr>IndexUpToDate = True, ReusableSpace = 0\<rparr>,
       index_file = Some [],
       data_files = [(1, layout rec12), (0, [])], hint_files = []\<rparr>,
      \<lparr>config = DefaultConfig, meta = \<lparr>IndexUpToDate = True, ReusableSpace = 0\<rparr>,
       cur = \<lparr>df_id = 1, df_reader = None, df_end = 13\<rparr>,
       dataFiles = [(0, \<lparr>df_id = 0, df_reader = Some [], df_end = 0\<rparr>)],
       index = [],
       isMerging = False\<rparr>)"

lemma begin_fresh: "Merge_begin (fresh DefaultConfig) = Inr (at_unlock, [0])"
  by (simp add: Merge_begin_def fresh_def closeCurrent_def openNewDataFile_def NewDataFile_def
        at_unlock_def)

lemma put_at_unlock: "Put at_unlock [1] [2] = Inr after_put"
  by (simp add: Put_def at_unlock_def mayCreateNewDataFile_def DefaultConfig_def AppendRecord_def
        Encode_rec12 [unfolded rec12_def] file_bytes_def file_WriteAt_def
        layout_rec12 [unfolded rec12_def] add_reusable_def after_put_def rec12_def)

lemma load_index_loop_Nil: "load_index_loop [] idx = Inr idx"
  by (subst load_index_loop.simps) (simp add: ReadIndex_def ReadFull_def)

lemma finish_after_put: "Merge_finish after_put [0] = Inr after_merge"
  by (simp add: Merge_finish_def after_put_def Open_empty_dir fresh_def last_id_def
        Close_def close_def SaveIndex_def SaveMeta_def file_WriteAt_def Let_def
        rename_all_def reload_def LoadDataFiles_def NewDataFile_def LoadIndex_def
        load_index_loop_Nil seal_all_def layout_rec12 after_merge_def AList.delete_eq)

text \<open>
  Claim C1 states that after \<open>Put(k, v)\<close> succeeds, a \<open>Get(k)\<close> with no put or delete of
  \<open>k\<close> in between returns \<open>v\<close>. In the scenario above the put succeeds and \<open>Get\<close>
  returns the value, but once the merge has finished, with no put or delete of the key in
  between, \<open>Get\<close> returns \<open>ErrKeyNotFound\<close>: the replay skips the entry because it lies
  in the new active file, and \<open>reload\<close> replaces the index by the one of the temporary
  engine, which does not have the key.
\<close>

theorem C1_put_lost_during_merge:
  "Merge_begin (fresh DefaultConfig) = Inr (at_unlock, [0]) \<and>
   Put at_unlock [1] [2] = Inr after_put \<and>
   Get after_put [1] = Inr [2] \<and>
   Merge_finish after_put [0] = Inr after_merge \<and>
   Get after_merge [1] = Inl ErrKeyNotFound"
proof -
  have run0: "run after_put [] = Inr after_put" by simp
  have "Get after_put [1] = Inr [2]"
    using put_then_get_in_session [OF _ _ put_at_unlock run0] by simp
  moreover have "Get after_merge [1] = Inl ErrKeyNotFound"
    by (simp add: Get_def after_merge_def)
  ultimately show ?thesis
    using begin_fresh put_at_unlock finish_after_put by simp
qed

section \<open>Claim C5: delete\<close>

text \<open>
  Claim C5: after \<open>Delete(k)\<close> succeeds every \<open>Get(k)\<close> with no put of \<open>k\<close> in between
  returns \<open>ErrKeyNotFound\<close>, and a delete of a key absent from the index still appends a
  tombstone to the active file and returns success. Lemma \<open>Delete_removes\<close> proves the
  first part, and lemma \<open>Delete_absent\<close> shows that for an absent key \<open>Delete\<close> is the
  append of the tombstone and nothing else. The second part fails for an absent key of
  65529 bytes on a freshly opened engine: the encoder panics, as in claim C2, so no
  tombstone is appended and \<open>Delete\<close> does not return.
\<close>

theorem C5_delete_panics_on_long_absent_key:
  "map_of (index (snd (fresh DefaultConfig))) (replicate 65529 0) = None \<and>
   Delete (fresh DefaultConfig) (replicate 65529 0) = Inl Panic"
  by (simp add: fresh_def Delete_def mayCreateNewDataFile_def DefaultConfig_def AppendRecord_def
        EncodeRecordWithChecksum_def NewRecordWithoutChecksum_def SetDeleted_def layout_vals Let_def
        copy_into_def)

section \<open>Claim C3: rebuilding the index from the data files\<close>

text \<open>
  The log of one put and one delete of the same key: on an engine opened on an empty
  directory, \<open>Put\<close> of key \<open>[1, 2]\<close> with value \<open>[3, 4, 5]\<close> gives \<open>after_put_rec\<close>, and
  \<open>Delete\<close> of the key gives \<open>after_del_rec\<close>, whose directory \<open>log_disk\<close> holds the
  two records in file 0. \<open>reopened\<close> is the engine that \<open>Open\<close> returns on that
  directory after the lock is released without \<open>Close\<close>.
\<close>

definition put_rec :: Record where
  "put_rec = NewRecordWithoutChecksum NormalFlag [1, 2] [3, 4, 5]"

definition del_rec :: Record where
  "del_rec = SetDeleted (NewRecordWithoutChecksum NormalFlag [1, 2] [])"

definition log_disk :: Disk where
  "log_disk = \<lparr>locked = True, meta_file = Absent, index_file = None,
                data_files = [(0, layout put_rec @ layout del_rec)], hint_files = []\<rparr>"

definition after_put_rec :: "Disk \<times> MKV" where
  "after_put_rec =
     (\<lparr>locked = True, meta_file = Absent, index_file = None,
       data_files = [(0, layout put_rec)], hint_files = []\<rparr>,
      \<lparr>config = DefaultConfig, meta = \<lparr>IndexUpToDate = False, ReusableSpace = 0\<rparr>,
       cur = \<lparr>df_id = 0, df_reader = None, df_end = 16\<rparr>, dataFiles = [],
       index = [([1, 2], \<lparr>ID = 0, Offset = 0, ESize = 16\<rparr>)], isMerging = False\<rparr>)"

definition after_del_rec :: "Disk \<times> MKV" where
  "after_del_rec =
     (log_disk,
      \<lparr>config = DefaultConfig, meta = \<lparr>IndexUpToDate = False, ReusableSpace = 16\<rparr>,
       cur = \<lparr>df_id = 0, df_reader = None, df_end = 29\<rparr>, dataFiles = [],
       index = [], isMerging = False\<rparr>)"

lemma layout_put_rec:
  "layout put_rec = header 0 2 3 @ [1, 2] @ [3, 4, 5]
      @ PutUint32 (ChecksumIEEE (header 0 2 3 @ [1, 2] @ [3, 4, 5])) @ []"
  by (simp add: layout_def put_rec_def NormalFlag_def Let_def)

lemma layout_del_rec:
  "layout del_rec = header 1 2 0 @ [1, 2] @ []
      @ PutUint32 (ChecksumIEEE (header 1 2 0 @ [1, 2])) @ []"
  by (simp add: layout_def del_rec_def NormalFlag_def Let_def SetDeleted_def bitDeleted_def
        NewRecordWithoutChecksum_def)

lemma length_layouts: "length (layout put_rec) = 16" "length (layout del_rec) = 13"
  by (simp_all add: layout_put_rec layout_del_rec)


lemma read_log_0:
  "read_record (layout put_rec @ layout del_rec) 0
   = Inr \<lparr>flag = 0, ksize = 2, vsize = 3, key = [1, 2], val = [3, 4, 5],
          checksum = ChecksumIEEE (header 0 2 3 @ [1, 2] @ [3, 4, 5])\<rparr>"
proof -
  have a: "length [1, 2 :: byte] = unat (2 :: 16 word)" by simp
  have b: "length [3, 4, 5 :: byte] = unat (3 :: 32 word)" by simp
  have c: "unat (2 :: 16 word) + unat (3 :: 32 word) < 2 ^ 32" by simp
  have d: "(0 :: nat) = length ([] :: byte list)" by simp
  note f = read_record_frame [OF a b c d, of 0 "ChecksumIEEE (header 0 2 3 @ [1, 2] @ [3, 4, 5])" "layout del_rec"]
  have e: "layout put_rec @ layout del_rec = [] @ header 0 2 3 @ [1, 2] @ [3, 4, 5]
      @ PutUint32 (ChecksumIEEE (header 0 2 3 @ [1, 2] @ [3, 4, 5])) @ layout del_rec"
    unfolding layout_put_rec by (simp only: append_assoc append_Nil append_Nil2)
  show ?thesis unfolding e by (rule f)
qed


lemma read_log_16:
  "read_record (layout put_rec @ layout del_rec) 16
   = Inr \<lparr>flag = 1, ksize = 2, vsize = 0, key = [1, 2], val = [],
          checksum = ChecksumIEEE (header 1 2 0 @ [1, 2])\<rparr>"
proof -
  have a: "length [1, 2 :: byte] = unat (2 :: 16 word)" by simp
  have b: "length ([] :: byte list) = unat (0 :: 32 word)" by simp
  have c: "unat (2 :: 16 word) + unat (0 :: 32 word) < 2 ^ 32" by simp
  have d: "(16 :: nat) = length (layout put_rec)" by (simp only: length_layouts)
  note f = read_record_frame [OF a b c d, of 1 "ChecksumIEEE (header 1 2 0 @ [1, 2])" "[]"]
  have e: "layout put_rec @ layout del_rec = layout put_rec @ header 1 2 0 @ [1, 2] @ []
      @ PutUint32 (ChecksumIEEE (header 1 2 0 @ [1, 2])) @ []"
    unfolding layout_del_rec by (simp only: append_assoc append_Nil append_Nil2)
  show ?thesis unfolding e by (rule f)
qed

lemma read_log_29: "read_record (layout put_rec @ layout del_rec) 29 = Inl EOF"
proof -
  have "length (layout put_rec @ layout del_rec) = 29" by (simp add: length_layouts)
  then have "file_ReadAt (layout put_rec @ layout del_rec) keyBegin 29 = Inl EOF"
    by (simp add: file_ReadAt_def layout_vals)
  then show ?thesis by (simp add: read_record_def)
qed

lemma index_scan_Inr:
  "read_record c offset = Inr r \<Longrightarrow>
   index_scan c fid offset idx =
     index_scan c fid (offset + Size r)
       (AList.update (key r) \<lparr>ID = fid, Offset = offset, ESize = Size r\<rparr>
          (if IsDeleted r then AList.delete (key r) idx else idx))"
  by (subst index_scan.simps) (simp add: Let_def)

lemma index_scan_EOF: "read_record c offset = Inl EOF \<Longrightarrow> index_scan c fid offset idx = Inr idx"
  by (subst index_scan.simps) simp

lemma rebuild_log_disk:
  "LoadIndexFromDataFiles log_disk [] [\<lparr>df_id = 0, df_reader = None, df_end = 29\<rparr>]
   = Inr [([1, 2], \<lparr>ID = 0, Offset = 16, ESize = 13\<rparr>)]"
proof -
  let ?c = "layout put_rec @ layout del_rec"
  have "index_scan ?c 0 0 [] = index_scan ?c 0 16 [([1, 2], \<lparr>ID = 0, Offset = 0, ESize = 16\<rparr>)]"
    by (subst index_scan_Inr [OF read_log_0])
       (simp add: IsDeleted_def bitDeleted_def Size_def layout_vals)
  also have "\<dots> = index_scan ?c 0 29 [([1, 2], \<lparr>ID = 0, Offset = 16, ESize = 13\<rparr>)]"
    by (subst index_scan_Inr [OF read_log_16])
       (simp add: IsDeleted_def bitDeleted_def Size_def layout_vals AList.delete_eq)
  also have "\<dots> = Inr [([1, 2], \<lparr>ID = 0, Offset = 16, ESize = 13\<rparr>)]"
    by (rule index_scan_EOF [OF read_log_29])
  finally show ?thesis
    by (simp add: LoadIndexFromDataFile_def file_bytes_def log_disk_def)
qed


lemma Encode_put_rec: "EncodeRecordWithChecksum put_rec = Inr (layout put_rec)"
  unfolding put_rec_def by (rule Encode_New_progress) simp_all

lemma Encode_del_rec: "EncodeRecordWithChecksum del_rec = Inr (layout del_rec)"
  unfolding del_rec_def by (rule Encode_layout) (simp_all add: unat_ksize_New)

lemma layouts_ne: "layout put_rec \<noteq> []" "layout del_rec \<noteq> []"
  using length_layouts by auto

lemma put_on_fresh: "Put (fresh DefaultConfig) [1, 2] [3, 4, 5] = Inr after_put_rec"
  by (simp add: Put_def fresh_def mayCreateNewDataFile_def DefaultConfig_def AppendRecord_def
        Encode_put_rec [unfolded put_rec_def] file_bytes_def file_WriteAt_def
        layouts_ne [unfolded put_rec_def] length_layouts [unfolded put_rec_def]
        add_reusable_def after_put_rec_def put_rec_def)

lemma delete_after_put: "Delete after_put_rec [1, 2] = Inr after_del_rec"
  by (simp add: Delete_def after_put_rec_def mayCreateNewDataFile_def DefaultConfig_def
        AppendRecord_def Encode_del_rec [unfolded del_rec_def] file_bytes_def file_WriteAt_def
        layouts_ne [unfolded del_rec_def] length_layouts [unfolded del_rec_def]
        add_reusable_def after_del_rec_def log_disk_def del_rec_def AList.delete_eq)

lemma recover_scan_valid:
  "read_record c offset = Inr r \<Longrightarrow> \<not> Corrupted r \<Longrightarrow>
   recover_scan c offset = recover_scan c (offset + Size r)"
  by (subst recover_scan.simps) simp

lemma recover_scan_EOF: "read_record c offset = Inl EOF \<Longrightarrow> recover_scan c offset = Inr offset"
  by (subst recover_scan.simps) simp

lemma recover_log: "recover_scan (layout put_rec @ layout del_rec) 0 = Inr 29"
proof -
  let ?c = "layout put_rec @ layout del_rec"
  have "recover_scan ?c 0 = recover_scan ?c 16"
    by (subst recover_scan_valid [OF read_log_0])
       (simp_all add: Corrupted_def generateChecksum_def header_def Size_def layout_vals)
  also have "\<dots> = recover_scan ?c 29"
    by (subst recover_scan_valid [OF read_log_16])
       (simp_all add: Corrupted_def generateChecksum_def header_def Size_def layout_vals)
  also have "\<dots> = Inr 29" by (rule recover_scan_EOF [OF read_log_29])
  finally show ?thesis .
qed

definition reopened :: "Disk \<times> MKV" where
  "reopened =
     (log_disk,
      \<lparr>config = DefaultConfig, meta = \<lparr>IndexUpToDate = False, ReusableSpace = 0\<rparr>,
       cur = \<lparr>df_id = 0, df_reader = None, df_end = 29\<rparr>, dataFiles = [],
       index = [([1, 2], \<lparr>ID = 0, Offset = 16, ESize = 13\<rparr>)], isMerging = False\<rparr>)"

lemma reopen_log: "Open DefaultConfig (log_disk\<lparr>locked := False\<rparr>) = Inr reopened"
  using rebuild_log_disk
  by (simp add: Open_def log_disk_def LoadMeta_def LoadDataFiles_def NewDataFile_def
        RecoverDataFile_def file_bytes_def recover_log length_layouts seal_all_def reopened_def)


lemma Decode_del_rec: "bnd (DecodeRecord (layout del_rec)) (\<lambda>r. Inr (val r)) = Inr []"
proof -
  have "unat (ksize del_rec) \<le> length (key del_rec)" "unat (vsize del_rec) \<le> length (val del_rec)"
    by (simp_all add: del_rec_def unat_ksize_New)
  from Encode_Inr_layout(2) [OF Encode_del_rec this] show ?thesis
    by (simp add: del_rec_def)
qed

lemma get_reopened: "Get reopened [1, 2] = Inr []"
proof -
  have "file_ReadAt (layout put_rec @ layout del_rec) 13 16 = Inr (layout del_rec)"
    by (simp add: file_ReadAt_def length_layouts)
  then show ?thesis
    using Decode_del_rec
    by (simp add: Get_def reopened_def log_disk_def ReadEntireRecordAt_def file_bytes_def bnd_assoc)
qed

text \<open>
  Claim C3 states that during the rebuild every record whose tombstone bit is set causes
  its key to be absent from the resulting index, so that the rebuilt index maps exactly
  the live keys to their latest records. For the log above the live index has no entry
  for the key, but the rebuilt index maps the key to the tombstone record: after
  \<open>delete(index, key)\<close> the loop body goes on to \<open>index[key] = entry\<close>. The engine
  opened on that directory returns the empty value for the deleted key.
\<close>

theorem C3_rebuild_keeps_deleted_key:
  "Put (fresh DefaultConfig) [1, 2] [3, 4, 5] = Inr after_put_rec \<and>
   Delete after_put_rec [1, 2] = Inr after_del_rec \<and>
   map_of (index (snd after_del_rec)) [1, 2] = None \<and>
   bnd (LoadIndexFromDataFiles (fst after_del_rec) [] [cur (snd after_del_rec)])
     (\<lambda>idx. Inr (map_of idx [1, 2]))
   = Inr (Some \<lparr>ID = 0, Offset = 16, ESize = 13\<rparr>) \<and>
   Open DefaultConfig ((fst after_del_rec)\<lparr>locked := False\<rparr>) = Inr reopened \<and>
   Get reopened [1, 2] = Inr []"
  using put_on_fresh delete_after_put rebuild_log_disk reopen_log get_reopened
  by (simp add: after_del_rec_def)

section \<open>Claim C6: the index file after a clean close\<close>

text \<open>
  The scenario: a first session puts one key and closes, which writes the key's frame to
  the index file; a second session opens the directory (the index is loaded from that
  file), deletes the key and closes with an empty index.
\<close>


definition e12 :: Entry where "e12 = \<lparr>ID = 0, Offset = 0, ESize = 16\<rparr>"

lemma Encode_e12:
  "EncodeEntry e12 = [0,0,0,0,0,0,0,0, 0,0,0,0,0,0,0,0, 0,0,0,0,0,0,0,16]"
  by (simp add: EncodeEntry_def e12_def PutUint64_def)

lemma Decode_e12:
  "DecodeEntry [0,0,0,0,0,0,0,0, 0,0,0,0,0,0,0,0, 0,0,0,0,0,0,0,16] = e12"
  by (simp add: DecodeEntry_def e12_def Uint64_def idBegin_def offsetBegin_def sizeBegin_def sizeEnd_def)

lemma frame_e12:
  "index_frame [1, 2] e12 = [0, 2, 1, 2, 0,0,0,0,0,0,0,0, 0,0,0,0,0,0,0,0, 0,0,0,0,0,0,0,16]"
  by (simp add: index_frame_def Encode_e12 PutUint16_def)

lemma ReadIndex_frame_e12: "ReadIndex (index_frame [1, 2] e12) = Inr ([1, 2], e12, [])"
  by (simp add: frame_e12 ReadIndex_def ReadFull_def Uint16_def sizeEnd_def Decode_e12)

lemma load_frame_e12: "load_index_loop (index_frame [1, 2] e12) [] = Inr [([1, 2], e12)]"
  by (subst load_index_loop.simps) (simp add: ReadIndex_frame_e12 load_index_loop_Nil)


lemma read_one_0:
  "read_record (layout put_rec) 0
   = Inr \<lparr>flag = 0, ksize = 2, vsize = 3, key = [1, 2], val = [3, 4, 5],
          checksum = ChecksumIEEE (header 0 2 3 @ [1, 2] @ [3, 4, 5])\<rparr>"
proof -
  have a: "length [1, 2 :: byte] = unat (2 :: 16 word)" by simp
  have b: "length [3, 4, 5 :: byte] = unat (3 :: 32 word)" by simp
  have c: "unat (2 :: 16 word) + unat (3 :: 32 word) < 2 ^ 32" by simp
  have d: "(0 :: nat) = length ([] :: byte list)" by simp
  note f = read_record_frame [OF a b c d, of 0 "ChecksumIEEE (header 0 2 3 @ [1, 2] @ [3, 4, 5])" "[]"]
  have e: "layout put_rec = [] @ header 0 2 3 @ [1, 2] @ [3, 4, 5]
      @ PutUint32 (ChecksumIEEE (header 0 2 3 @ [1, 2] @ [3, 4, 5])) @ []"
    unfolding layout_put_rec by (simp only: append_assoc append_Nil append_Nil2)
  show ?thesis by (subst e) (rule f)
qed

lemma read_one_16: "read_record (layout put_rec) 16 = Inl EOF"
proof -
  have "file_ReadAt (layout put_rec) keyBegin 16 = Inl EOF"
    by (simp add: file_ReadAt_def layout_vals length_layouts)
  then show ?thesis by (simp add: read_record_def)
qed

lemma recover_one: "recover_scan (layout put_rec) 0 = Inr 16"
proof -
  have "recover_scan (layout put_rec) 0 = recover_scan (layout put_rec) 16"
    by (subst recover_scan_valid [OF read_one_0])
       (simp_all add: Corrupted_def generateChecksum_def header_def Size_def layout_vals)
  also have "\<dots> = Inr 16" by (rule recover_scan_EOF [OF read_one_16])
  finally show ?thesis .
qed

definition closed1 :: "Disk \<times> MKV" where
  "closed1 =
     (\<lparr>locked = False, meta_file = Holds \<lparr>IndexUpToDate = True, ReusableSpace = 0\<rparr>,
       index_file = Some (index_frame [1, 2] e12),
       data_files = [(0, layout put_rec)], hint_files = []\<rparr>,
      \<lparr>config = DefaultConfig, meta = \<lparr>IndexUpToDate = True, ReusableSpace = 0\<rparr>,
       cur = \<lparr>df_id = 0, df_reader = None, df_end = 16\<rparr>, dataFiles = [],
       index = [([1, 2], e12)], isMerging = False\<rparr>)"

definition reopened1 :: "Disk \<times> MKV" where
  "reopened1 = ((fst closed1)\<lparr>locked := True\<rparr>, snd closed1)"

definition deleted2 :: "Disk \<times> MKV" where
  "deleted2 =
     (\<lparr>locked = True, meta_file = Holds \<lparr>IndexUpToDate = True, ReusableSpace = 0\<rparr>,
       index_file = Some (index_frame [1, 2] e12),
       data_files = [(0, layout put_rec @ layout del_rec)], hint_files = []\<rparr>,
      \<lparr>config = DefaultConfig, meta = \<lparr>IndexUpToDate = True, ReusableSpace = 16\<rparr>,
       cur = \<lparr>df_id = 0, df_reader = None, df_end = 29\<rparr>, dataFiles = [],
       index = [], isMerging = False\<rparr>)"

definition closed2 :: "Disk \<times> MKV" where
  "closed2 =
     (\<lparr>locked = False, meta_file = Holds \<lparr>IndexUpToDate = True, ReusableSpace = 16\<rparr>,
       index_file = Some (index_frame [1, 2] e12),
       data_files = [(0, layout put_rec @ layout del_rec)], hint_files = []\<rparr>,
      snd deleted2)"

definition reopened3 :: "Disk \<times> MKV" where
  "reopened3 =
     ((fst closed2)\<lparr>locked := True\<rparr>,
      \<lparr>config = DefaultConfig, meta = \<lparr>IndexUpToDate = True, ReusableSpace = 16\<rparr>,
       cur = \<lparr>df_id = 0, df_reader = None, df_end = 29\<rparr>, dataFiles = [],
       index = [([1, 2], e12)], isMerging = False\<rparr>)"

lemma close1: "Close after_put_rec = Inr closed1"
  by (simp add: Close_def close_def after_put_rec_def SaveIndex_def SaveMeta_def file_WriteAt_def
        closed1_def e12_def Let_def)

lemma open1: "Open DefaultConfig (fst closed1) = Inr reopened1"
  by (simp add: Open_def closed1_def LoadMeta_def LoadDataFiles_def NewDataFile_def
        RecoverDataFile_def file_bytes_def recover_one length_layouts LoadIndex_def load_frame_e12
        seal_all_def reopened1_def)

lemma delete2: "Delete reopened1 [1, 2] = Inr deleted2"
  by (simp add: Delete_def reopened1_def closed1_def mayCreateNewDataFile_def DefaultConfig_def
        AppendRecord_def Encode_del_rec [unfolded del_rec_def] file_bytes_def file_WriteAt_def
        layouts_ne [unfolded del_rec_def] length_layouts [unfolded del_rec_def]
        add_reusable_def deleted2_def del_rec_def AList.delete_eq e12_def)

lemma close2: "Close deleted2 = Inr closed2"
  by (simp add: Close_def close_def deleted2_def SaveIndex_def SaveMeta_def file_WriteAt_def
        closed2_def Let_def)

lemma load2: "LoadIndex (fst closed2) = Inr [([1, 2], e12)]"
  by (simp add: LoadIndex_def closed2_def load_frame_e12)

lemma open3: "Open DefaultConfig (fst closed2) = Inr reopened3"
  by (simp add: Open_def closed2_def LoadMeta_def LoadDataFiles_def NewDataFile_def
        RecoverDataFile_def file_bytes_def recover_log length_layouts LoadIndex_def load_frame_e12
        seal_all_def reopened3_def deleted2_def)

lemma Decode_put_rec: "bnd (DecodeRecord (layout put_rec)) (\<lambda>r. Inr (val r)) = Inr [3, 4, 5]"
proof -
  have "unat (ksize put_rec) \<le> length (key put_rec)" "unat (vsize put_rec) \<le> length (val put_rec)"
    by (simp_all add: put_rec_def)
  from Encode_Inr_layout(2) [OF Encode_put_rec this] show ?thesis
    by (simp add: put_rec_def)
qed

lemma get3: "Get reopened3 [1, 2] = Inr [3, 4, 5]"
proof -
  have "file_ReadAt (layout put_rec @ layout del_rec) 16 0 = Inr (layout put_rec)"
    by (simp add: file_ReadAt_def length_layouts)
  then show ?thesis
    using Decode_put_rec
    by (simp add: Get_def reopened3_def closed2_def e12_def ReadEntireRecordAt_def file_bytes_def
          bnd_assoc)
qed

text \<open>
  Claim C6 states that after a clean Close the flag \<open>IndexUpToDate\<close> is true and the
  index file decodes to exactly the in-memory index at close time, whatever the file held
  before. The flag is set, but \<open>SaveIndex\<close> opens the file with
  \<open>O_RDWR|O_CREATE\<close> and no \<open>O_TRUNC\<close>, and writes the frames from offset 0 over
  the old content: in the second Close above the index is empty, nothing is written, and
  the file still holds the frame of the deleted key. \<open>LoadIndex\<close> returns that
  entry, and the third session returns the deleted key's old value.
\<close>

theorem C6_close_leaves_stale_index:
  "Close after_put_rec = Inr closed1 \<and>
   Open DefaultConfig (fst closed1) = Inr reopened1 \<and>
   Delete reopened1 [1, 2] = Inr deleted2 \<and>
   Close deleted2 = Inr closed2 \<and>
   index (snd closed2) = [] \<and>
   meta_file (fst closed2) = Holds \<lparr>IndexUpToDate = True, ReusableSpace = 16\<rparr> \<and>
   index_file (fst closed2) = Some (index_frame [1, 2] e12) \<and>
   LoadIndex (fst closed2) = Inr [([1, 2], e12)] \<and>
   Open DefaultConfig (fst closed2) = Inr reopened3 \<and>
   Get reopened3 [1, 2] = Inr [3, 4, 5]"
  using close1 open1 delete2 close2 load2 open3 get3
  by (simp add: closed2_def deleted2_def)

section \<open>Claim C7: the flag \<open>IndexUpToDate\<close> at Open\<close>

text \<open>
  None of the steps of \<open>Open\<close> writes the meta file.
\<close>

lemma NewDataFile_meta:
  "NewDataFile d i ro = Inr (d1, df) \<Longrightarrow> meta_file d1 = meta_file d"
  by (cases "map_of (data_files d) i") (auto simp: NewDataFile_def split: if_splits)

lemma open_files_meta:
  "open_files d ids = Inr (d1, fs) \<Longrightarrow> meta_file d1 = meta_file d"
proof (induction d ids arbitrary: d1 fs rule: open_files.induct)
  case (1 d)
  then show ?case by simp
next
  case (2 d i)
  then show ?case by (auto elim!: bnd_InrE dest: NewDataFile_meta)
next
  case (3 d i v va)
  from "3.prems" obtain d' f d'' fs' where
    a: "NewDataFile d i True = Inr (d', f)" and
    b: "open_files d' (v # va) = Inr (d'', fs')" and c: "d1 = d''"
    by (auto elim!: bnd_InrE)
  from "3.IH" [OF b] NewDataFile_meta [OF a] c show ?case by simp
qed

lemma RecoverDataFile_meta:
  "RecoverDataFile d f = Inr (d1, c, r) \<Longrightarrow> meta_file d1 = meta_file d"
  by (auto simp: RecoverDataFile_def elim!: bnd_InrE split: if_splits)

text \<open>
  Claim C7 states that Open, after building or loading the index, sets
  \<open>IndexUpToDate\<close> to false. The source assigns the flag in two places only, both
  with \<open>true\<close> (in \<open>close\<close> and at the end of \<open>Merge\<close>); \<open>Open\<close> reads it
  to choose between the index file and the rebuild, and what invalidates the snapshot is
  the removal of the index file when the recovery truncated the active file. Claim C7 as
  amended: an Open that succeeds leaves the flag as \<open>LoadMeta\<close> returned it (false
  when there is no meta file), in the engine and in the meta file, which it does not
  write.
\<close>

theorem C7_Open_keeps_meta:
  "Open cfg d = Inr s \<Longrightarrow> LoadMeta d = Inr (meta (snd s)) \<and> meta_file (fst s) = meta_file d"
proof -
  assume a: "Open cfg d = Inr s"
  then have nl: "\<not> locked d" by (auto simp: Open_def split: if_splits)
  let ?d = "d\<lparr>locked := True\<rparr>"
  have lm: "LoadMeta ?d = LoadMeta d" by (simp add: LoadMeta_def)
  from a nl obtain mt d1 files where
    m: "LoadMeta d = Inr mt" and
    l: "LoadDataFiles ?d = Inr (d1, files)" and
    r: "(if files = [] then
            bnd (NewDataFile d1 0 False) (\<lambda>(d2, c).
            Inr (d2, \<lparr>config = cfg, meta = mt, cur = c, dataFiles = [], index = [],
                      isMerging = False\<rparr>))
          else
            bnd (RecoverDataFile d1 (last files)) (\<lambda>(d2, c, recovered).
            let d3 = (if recovered \<and> index_file d2 \<noteq> None then d2\<lparr>index_file := None\<rparr> else d2)
            in bnd (if IndexUpToDate mt \<and> index_file d3 \<noteq> None then LoadIndex d3
                    else LoadIndexFromDataFiles d3 [] (butlast files @ [c])) (\<lambda>idx.
               Inr (d3, \<lparr>config = cfg, meta = mt, cur = c,
                         dataFiles = seal_all (butlast files), index = idx,
                         isMerging = False\<rparr>)))) = Inr s"
    unfolding Open_def Let_def lm by (auto elim!: bnd_InrE)
  from l have d1: "meta_file d1 = meta_file d"
    unfolding LoadDataFiles_def by (auto dest: open_files_meta)
  show ?thesis
  proof (cases "files = []")
    case True
    with r d1 m show ?thesis by (auto elim!: bnd_InrE dest: NewDataFile_meta)
  next
    case False
    with r obtain d2 c recovered idx where
      rc: "RecoverDataFile d1 (last files) = Inr (d2, c, recovered)" and
      s: "s = ((if recovered \<and> index_file d2 \<noteq> None then d2\<lparr>index_file := None\<rparr> else d2),
               \<lparr>config = cfg, meta = mt, cur = c,
                         dataFiles = seal_all (butlast files), index = idx,
                         isMerging = False\<rparr>)"
      by (auto simp: Let_def elim!: bnd_InrE)
    from RecoverDataFile_meta [OF rc] d1 m s show ?thesis by simp
  qed
qed

text \<open>
  The theorem at the directory left by a clean Close after one Put.
\<close>

theorem C7_Open_keeps_meta_witness:
  "Open DefaultConfig (fst closed1) = Inr reopened1 \<and>
   LoadMeta (fst closed1) = Inr (meta (snd reopened1)) \<and>
   meta_file (fst reopened1) = meta_file (fst closed1)"
  using C7_Open_keeps_meta [of DefaultConfig "fst closed1" reopened1] open1 by simp

text \<open>
  Claim C7 as stated fails there: after Open the flag is true in the engine and in the
  meta file.
\<close>

theorem C7_Open_leaves_flag_true:
  "Close after_put_rec = Inr closed1 \<and>
   Open DefaultConfig (fst closed1) = Inr reopened1 \<and>
   IndexUpToDate (meta (snd reopened1)) = True \<and>
   meta_file (fst reopened1) = Holds \<lparr>IndexUpToDate = True, ReusableSpace = 0\<rparr>"
  using close1 open1 by (simp add: reopened1_def closed1_def)

section \<open>Claim C4: tail recovery\<close>

text \<open>
  A data file that holds the record of one Put followed by eleven bytes that are not a
  record: a header with \<open>ksize = 1\<close> and \<open>vsize = 2 ^ 32 - 1\<close>, and four more bytes.
\<close>

definition torn_tail :: "byte list" where
  "torn_tail = [0, 0, 1, 255, 255, 255, 255, 0, 0, 0, 0]"

definition torn_disk :: Disk where
  "torn_disk = empty_dir\<lparr>data_files := [(0, layout put_rec @ torn_tail)]\<rparr>"

lemma read_torn_0:
  "read_record (layout put_rec @ torn_tail) 0
   = Inr \<lparr>flag = 0, ksize = 2, vsize = 3, key = [1, 2], val = [3, 4, 5],
          checksum = ChecksumIEEE (header 0 2 3 @ [1, 2] @ [3, 4, 5])\<rparr>"
proof -
  have a: "length [1, 2 :: byte] = unat (2 :: 16 word)" by simp
  have b: "length [3, 4, 5 :: byte] = unat (3 :: 32 word)" by simp
  have c: "unat (2 :: 16 word) + unat (3 :: 32 word) < 2 ^ 32" by simp
  have d: "(0 :: nat) = length ([] :: byte list)" by simp
  note f = read_record_frame [OF a b c d,
      of 0 "ChecksumIEEE (header 0 2 3 @ [1, 2] @ [3, 4, 5])" torn_tail]
  have e: "layout put_rec @ torn_tail = [] @ header 0 2 3 @ [1, 2] @ [3, 4, 5]
      @ PutUint32 (ChecksumIEEE (header 0 2 3 @ [1, 2] @ [3, 4, 5])) @ torn_tail"
    unfolding layout_put_rec by (simp only: append_assoc append_Nil append_Nil2)
  show ?thesis by (subst e) (rule f)
qed

lemma read_torn_tail: "read_record torn_tail 0 = Inl Panic"
  by (simp add: read_record_def file_ReadAt_def torn_tail_def layout_vals Uint16_def Uint32_def
        slice_def Let_def)

lemma read_record_drop:
  "read_record (pre @ c) (length pre + offset) = read_record c offset"
  by (simp add: read_record_def file_ReadAt_def add.assoc Let_def cong: if_cong)

lemma read_torn_16: "read_record (layout put_rec @ torn_tail) 16 = Inl Panic"
  using read_record_drop [of "layout put_rec" torn_tail 0] read_torn_tail
  by (simp add: length_layouts)

lemma recover_torn: "recover_scan (layout put_rec @ torn_tail) 0 = Inl Panic"
proof -
  let ?c = "layout put_rec @ torn_tail"
  have "recover_scan ?c 0 = recover_scan ?c 16"
    by (subst recover_scan_valid [OF read_torn_0])
       (simp_all add: Corrupted_def generateChecksum_def header_def Size_def layout_vals)
  also have "\<dots> = Inl Panic"
    by (subst recover_scan.simps) (simp add: read_torn_16)
  finally show ?thesis .
qed

text \<open>
  Claim C4 states that tail recovery truncates the file to its longest prefix of valid
  records and returns true exactly when it truncated. On the file above the longest such
  prefix is the first record, 16 bytes. \<open>ReadRecordAt\<close> computes the payload length
  \<open>uint32(ksize) + vsize\<close> in \<open>uint32\<close>, which wraps to 0 for the tail's header; the
  two reads succeed and \<open>payload[:ksize]\<close> is out of range for the empty payload. The
  scan panics at offset 16, so \<open>RecoverDataFile\<close> truncates nothing and returns
  nothing, and neither does \<open>Open\<close> on that directory.
\<close>

theorem C4_recovery_panics_on_torn_tail:
  "Put (fresh DefaultConfig) [1, 2] [3, 4, 5] = Inr after_put_rec \<and>
   data_files (fst after_put_rec) = [(0, layout put_rec)] \<and>
   NewDataFile torn_disk 0 False
     = Inr (torn_disk, \<lparr>df_id = 0, df_reader = None, df_end = 27\<rparr>) \<and>
   RecoverDataFile torn_disk \<lparr>df_id = 0, df_reader = None, df_end = 27\<rparr> = Inl Panic \<and>
   Open DefaultConfig torn_disk = Inl Panic"
  using put_on_fresh recover_torn
  by (simp add: after_put_rec_def torn_disk_def empty_dir_def NewDataFile_def length_layouts
        torn_tail_def [THEN arg_cong [where f = length]] RecoverDataFile_def file_bytes_def
        Open_def LoadMeta_def LoadDataFiles_def)

section \<open>Claim C8: the counter of reusable space\<close>

text \<open>
  The counter of a state, and the size of the entry that a put or a delete of a key
  supersedes: the size of the key's entry in the index, or nothing.
\<close>

definition reusable :: "Disk \<times> MKV \<Rightarrow> 64 word" where
  "reusable s = ReusableSpace (meta (snd s))"

definition superseded :: "Disk \<times> MKV \<Rightarrow> byte list \<Rightarrow> nat" where
  "superseded s k = (case map_of (index (snd s)) k of Some old \<Rightarrow> ESize old | None \<Rightarrow> 0)"

lemma add_reusable_value:
  "ReusableSpace (add_reusable m k)
   = ReusableSpace (meta m) + of_nat (case map_of (index m) k of Some old \<Rightarrow> ESize old | None \<Rightarrow> 0)"
  by (simp add: add_reusable_def split: option.split)

lemma Put_reusable:
  assumes "Put s k v = Inr t"
  shows "reusable t = reusable s + of_nat (superseded s k)"
proof -
  from assms obtain d m d' c off sz where
    a: "mayCreateNewDataFile s = Inr (d, m)" and
    t: "t = (d', m\<lparr>cur := c, meta := add_reusable m k,
                    index := AList.update k \<lparr>ID = df_id c, Offset = off, ESize = sz\<rparr> (index m)\<rparr>)"
    by (rule Put_InrE)
  from mayCreate_index [OF a] have "index m = index (snd s)" "meta m = meta (snd s)" by simp_all
  then show ?thesis by (simp add: t reusable_def superseded_def add_reusable_value)
qed

lemma Delete_reusable:
  assumes "Delete s k = Inr t"
  shows "reusable t = reusable s + of_nat (superseded s k)"
proof -
  from assms obtain d m d' c off sz where
    a: "mayCreateNewDataFile s = Inr (d, m)" and
    t: "t = (d', m\<lparr>cur := c, meta := add_reusable m k, index := AList.delete k (index m)\<rparr>)"
    by (rule Delete_InrE)
  from mayCreate_index [OF a] have "index m = index (snd s)" "meta m = meta (snd s)" by simp_all
  then show ?thesis by (simp add: t reusable_def superseded_def add_reusable_value)
qed

lemma sint_add_no_wrap:
  fixes a :: "64 word"
  assumes "sint a + int n < 2 ^ 63"
  shows "sint (a + of_nat n) = sint a + int n"
proof -
  have lo: "- (2 ^ 63) \<le> sint a" using sint_ge [of a] by simp
  have "a + of_nat n = word_of_int (sint a + int n)" by simp
  then have "sint (a + of_nat n) = signed_take_bit 63 (sint a + int n)"
    by (simp only: signed_of_int) simp
  also have "\<dots> = sint a + int n"
    using assms lo by (intro signed_take_bit_int_eq_self) simp_all
  finally show ?thesis .
qed

lemma reload_meta: "reload (d, m) = Inr (d', m') \<Longrightarrow> meta m' = meta m"
  by (auto simp: reload_def elim!: bnd_InrE split: if_splits)

lemma Merge_finish_resets:
  assumes "Merge_finish s ids = Inr t"
  shows "reusable t = 0"
proof -
  obtain d2 m2 where s: "s = (d2, m2)" by (cases s)
  from assms [unfolded s Merge_finish_def Let_def] obtain d5 m3 d6 m5 where
    r: "reload (d5, m3\<lparr>meta := (meta m3)\<lparr>ReusableSpace := 0, IndexUpToDate := True\<rparr>\<rparr>) = Inr (d6, m5)"
    and t: "t = (d6, m5\<lparr>isMerging := False\<rparr>)"
    by (auto elim!: bnd_InrE)
  from reload_meta [OF r] t show ?thesis by (simp add: reusable_def)
qed

lemma Merge_resets:
  assumes "\<not> isMerging (snd s)" and "Merge s = Inr t"
  shows "reusable t = 0"
proof -
  from assms obtain s2 ids where "Merge_finish s2 ids = Inr t"
    unfolding Merge_split by (auto elim!: bnd_InrE)
  then show ?thesis by (rule Merge_finish_resets)
qed

text \<open>
  Two directories: a merge of the engine opened on an empty directory, and a directory
  whose meta file holds the largest \<open>int64\<close> as the counter, beside the data file of one
  put.
\<close>

definition merged_fresh :: "Disk \<times> MKV" where
  "merged_fresh =
     (\<lparr>locked = True, meta_file = Holds \<lparr>IndexUpToDate = True, ReusableSpace = 0\<rparr>,
       index_file = Some [], data_files = [(1, []), (0, [])], hint_files = []\<rparr>,
      \<lparr>config = DefaultConfig, meta = \<lparr>IndexUpToDate = True, ReusableSpace = 0\<rparr>,
       cur = \<lparr>df_id = 1, df_reader = None, df_end = 0\<rparr>,
       dataFiles = [(0, \<lparr>df_id = 0, df_reader = Some [], df_end = 0\<rparr>)],
       index = [], isMerging = False\<rparr>)"

lemma finish_at_unlock: "Merge_finish at_unlock [0] = Inr merged_fresh"
  by (simp add: Merge_finish_def at_unlock_def Open_empty_dir fresh_def last_id_def
        Close_def close_def SaveIndex_def SaveMeta_def file_WriteAt_def Let_def
        rename_all_def reload_def LoadDataFiles_def NewDataFile_def LoadIndex_def
        load_index_loop_Nil seal_all_def merged_fresh_def AList.delete_eq)

lemma merge_fresh: "Merge (fresh DefaultConfig) = Inr merged_fresh"
  by (simp add: Merge_split begin_fresh finish_at_unlock) (simp add: fresh_def)

definition full_disk :: Disk where
  "full_disk =
     \<lparr>locked = False,
      meta_file = Holds \<lparr>IndexUpToDate = False, ReusableSpace = 0x7FFFFFFFFFFFFFFF\<rparr>,
      index_file = None, data_files = [(0, layout put_rec)], hint_files = []\<rparr>"

definition full_open :: "Disk \<times> MKV" where
  "full_open =
     (full_disk\<lparr>locked := True\<rparr>,
      \<lparr>config = DefaultConfig,
       meta = \<lparr>IndexUpToDate = False, ReusableSpace = 0x7FFFFFFFFFFFFFFF\<rparr>,
       cur = \<lparr>df_id = 0, df_reader = None, df_end = 16\<rparr>, dataFiles = [],
       index = [([1, 2], \<lparr>ID = 0, Offset = 0, ESize = 16\<rparr>)], isMerging = False\<rparr>)"

definition full_put :: "Disk \<times> MKV" where
  "full_put =
     (\<lparr>locked = True,
       meta_file = Holds \<lparr>IndexUpToDate = False, ReusableSpace = 0x7FFFFFFFFFFFFFFF\<rparr>,
       index_file = None, data_files = [(0, layout put_rec @ layout put_rec)],
       hint_files = []\<rparr>,
      \<lparr>config = DefaultConfig,
       meta = \<lparr>IndexUpToDate = False, ReusableSpace = 0x800000000000000F\<rparr>,
       cur = \<lparr>df_id = 0, df_reader = None, df_end = 32\<rparr>, dataFiles = [],
       index = [([1, 2], \<lparr>ID = 0, Offset = 16, ESize = 16\<rparr>)], isMerging = False\<rparr>)"

lemma rebuild_full_disk:
  "LoadIndexFromDataFiles (full_disk\<lparr>locked := True\<rparr>) []
     [\<lparr>df_id = 0, df_reader = None, df_end = 16\<rparr>]
   = Inr [([1, 2], \<lparr>ID = 0, Offset = 0, ESize = 16\<rparr>)]"
proof -
  let ?c = "layout put_rec"
  have "index_scan ?c 0 0 [] = index_scan ?c 0 16 [([1, 2], \<lparr>ID = 0, Offset = 0, ESize = 16\<rparr>)]"
    by (subst index_scan_Inr [OF read_one_0])
       (simp add: IsDeleted_def bitDeleted_def Size_def layout_vals)
  also have "\<dots> = Inr [([1, 2], \<lparr>ID = 0, Offset = 0, ESize = 16\<rparr>)]"
    by (rule index_scan_EOF [OF read_one_16])
  finally show ?thesis
    by (simp add: LoadIndexFromDataFile_def file_bytes_def full_disk_def)
qed

lemma open_full: "Open DefaultConfig full_disk = Inr full_open"
  using rebuild_full_disk
  by (simp add: Open_def full_disk_def LoadMeta_def LoadDataFiles_def NewDataFile_def
        RecoverDataFile_def file_bytes_def recover_one length_layouts seal_all_def full_open_def)

lemma put_full: "Put full_open [1, 2] [3, 4, 5] = Inr full_put"
  by (simp add: Put_def full_open_def full_disk_def mayCreateNewDataFile_def DefaultConfig_def
        AppendRecord_def Encode_put_rec [unfolded put_rec_def] file_bytes_def file_WriteAt_def
        layouts_ne [unfolded put_rec_def] length_layouts [unfolded put_rec_def]
        add_reusable_def full_put_def put_rec_def)

text \<open>
  Claim C8 states that the counter never decreases across a Put or a Delete, each adding
  the size of the superseded entry when the key was present and leaving the counter
  unchanged otherwise, and that a completed Merge resets it to 0. Claim C8 as amended: a
  Put or a Delete that succeeds adds the size of the superseded entry to the counter in
  \<open>int64\<close> arithmetic (nothing when the key was absent), so the counter grows by that
  size and does not decrease whenever the sum stays below \<open>2 ^ 63\<close>; a Merge that runs
  and returns without error leaves the counter 0, also when other operations ran while it
  had released the mutex.
\<close>

theorem C8_reusable_space:
  "(Put s k v = Inr t \<or> Delete s k = Inr t \<longrightarrow>
      reusable t = reusable s + of_nat (superseded s k) \<and>
      (sint (reusable s) + int (superseded s k) < 2 ^ 63 \<longrightarrow>
         sint (reusable t) = sint (reusable s) + int (superseded s k) \<and>
         sint (reusable s) \<le> sint (reusable t))) \<and>
   (\<not> isMerging (snd s1) \<and> Merge s1 = Inr t1 \<longrightarrow> reusable t1 = 0) \<and>
   (Merge_finish s2 ids = Inr t2 \<longrightarrow> reusable t2 = 0)"
proof (intro conjI impI)
  assume a: "Put s k v = Inr t \<or> Delete s k = Inr t"
  then show e: "reusable t = reusable s + of_nat (superseded s k)"
    using Put_reusable Delete_reusable by blast
  assume "sint (reusable s) + int (superseded s k) < 2 ^ 63"
  from sint_add_no_wrap [OF this] e
  show "sint (reusable t) = sint (reusable s) + int (superseded s k)" by simp
  then show "sint (reusable s) \<le> sint (reusable t)" by simp
next
  assume "\<not> isMerging (snd s1) \<and> Merge s1 = Inr t1"
  then show "reusable t1 = 0" using Merge_resets by blast
next
  assume "Merge_finish s2 ids = Inr t2"
  then show "reusable t2 = 0" by (rule Merge_finish_resets)
qed

text \<open>
  The theorem at the delete of a key put before, at a merge of a fresh engine, and at the
  merge that a put has interleaved.
\<close>

theorem C8_reusable_space_witness:
  "Delete after_put_rec [1, 2] = Inr after_del_rec \<and>
   reusable after_put_rec = 0 \<and> superseded after_put_rec [1, 2] = 16 \<and>
   reusable after_del_rec = 16 \<and>
   sint (reusable after_put_rec) \<le> sint (reusable after_del_rec) \<and>
   \<not> isMerging (snd (fresh DefaultConfig)) \<and>
   Merge (fresh DefaultConfig) = Inr merged_fresh \<and> reusable merged_fresh = 0 \<and>
   Merge_finish after_put [0] = Inr after_merge \<and> reusable after_merge = 0"
  using C8_reusable_space [of after_put_rec "[1, 2]" "[]" after_del_rec "fresh DefaultConfig"
                  merged_fresh after_put "[0]" after_merge]
    delete_after_put merge_fresh finish_after_put
  by (simp add: reusable_def superseded_def after_put_rec_def after_del_rec_def fresh_def)

text \<open>
  Claim C8 as stated fails at the bound of \<open>int64\<close>: the engine opened on the second
  directory has the counter \<open>2 ^ 63 - 1\<close>, and a put of the key it holds leaves the
  counter negative.
\<close>

theorem C8_counter_wraps:
  "Open DefaultConfig full_disk = Inr full_open \<and>
   Put full_open [1, 2] [3, 4, 5] = Inr full_put \<and>
   map_of (index (snd full_open)) [1, 2] = Some \<lparr>ID = 0, Offset = 0, ESize = 16\<rparr> \<and>
   sint (reusable full_open) = 9223372036854775807 \<and>
   sint (reusable full_put) = - 9223372036854775793 \<and>
   sint (reusable full_put) < sint (reusable full_open)"
  using open_full put_full by (simp add: reusable_def full_open_def full_put_def)

section \<open>Claim C9: the index and the data files\<close>
























end
